theory Spec2Isabelle
  imports Main
begin

section \<open>Values and exceptions\<close>

text \<open>
  The service reads the bodies of the upstream answers with \<^verbatim>\<open>response.json()\<close>: a
  Python value built from \<^verbatim>\<open>None\<close>, booleans, numbers, strings, lists and
  dictionaries. The program never computes with a number of a payload: it stores it or
  formats it with \<^verbatim>\<open>str\<close>, so a number is kept as the text \<^verbatim>\<open>str\<close> gives for
  it. A dictionary is the list of its items in insertion order; \<open>map_of\<close> reads it.
\<close>

datatype json =
    JNull
  | JBool bool
  | JNum string
  | JStr string
  | JArr "json list"
  | JObj "(string \<times> json) list"

text \<open>
  The exceptions that leave the service: its own \<^verbatim>\<open>CardFetchError\<close> with the
  message, what \<^verbatim>\<open>client.get\<close> raises (\<open>TransportError\<close> stands for any of its
  exceptions: a timeout, a connection failure, a URL it refuses), what
  \<^verbatim>\<open>response.json()\<close> raises on a body that is not JSON, and the two run-time
  errors of Python the code can meet on a payload of an unexpected shape.
\<close>

datatype error =
    CardFetchError string
  | TransportError
  | JSONDecodeError
  | AttributeError
  | TypeError

definition ebind :: "error + 'a \<Rightarrow> ('a \<Rightarrow> error + 'b) \<Rightarrow> error + 'b" where
  "ebind r f = (case r of Inl e \<Rightarrow> Inl e | Inr v \<Rightarrow> f v)"

text \<open>\<^verbatim>\<open>obj.get(key, default)\<close>: only a dictionary has the method.\<close>

fun py_get :: "json \<Rightarrow> string \<Rightarrow> json \<Rightarrow> error + json" where
  "py_get (JObj kv) k d = Inr (case map_of kv k of None \<Rightarrow> d | Some v \<Rightarrow> v)"
| "py_get _ k d = Inl AttributeError"

text \<open>
  \<^verbatim>\<open>str(v)\<close>, as an f-string applies it. The text of a list or of a dictionary is
  Python's \<^verbatim>\<open>repr\<close>, taken as a parameter.
\<close>

fun py_str :: "(json \<Rightarrow> string) \<Rightarrow> json \<Rightarrow> string" where
  "py_str rp JNull = ''None''"
| "py_str rp (JBool b) = (if b then ''True'' else ''False'')"
| "py_str rp (JNum t) = t"
| "py_str rp (JStr t) = t"
| "py_str rp v = rp v"

text \<open>A list or a dictionary is no dictionary key: \<^verbatim>\<open>k in d\<close> raises TypeError.\<close>

fun hashable :: "json \<Rightarrow> bool" where
  "hashable (JArr _) = False"
| "hashable (JObj _) = False"
| "hashable _ = True"

text \<open>
  What a \<^verbatim>\<open>for\<close> loop iterates over: the elements of a list, the keys of a
  dictionary, the characters of a string; anything else raises TypeError.
\<close>

fun py_iter :: "json \<Rightarrow> error + json list" where
  "py_iter (JArr xs) = Inr xs"
| "py_iter (JObj kv) = Inr (map (\<lambda>p. JStr (fst p)) kv)"
| "py_iter (JStr t) = Inr (map (\<lambda>c. JStr [c]) t)"
| "py_iter _ = Inl TypeError"

section \<open>The upstream API\<close>

text \<open>
  The two requests the service sends: the named lookup with its \<^verbatim>\<open>fuzzy\<close> parameter
  and the rulings of a card, with the text put into the URL. An answer is a status code
  and a body (\<open>None\<close> when the body is not JSON). The upstream, seen through the HTTP
  client, is a parameter: its answer may depend on the requests made before; \<open>None\<close>
  stands for a call of the client that raises instead of giving an answer (a timeout, a
  connection failure, a URL the client refuses to send).
\<close>

datatype request = NamedLookup string | RulingsLookup string

datatype response = Response (status_code: int) (json_body: "json option")

record env =
  http_get :: "request list \<Rightarrow> request \<Rightarrow> response option"
  py_repr :: "json \<Rightarrow> string"

section \<open>The service\<close>

text \<open>
  \<^verbatim>\<open>fetch_card_data\<close> builds a dictionary with a fixed set of keys;
  \<^verbatim>\<open>fetch_full_card\<close> adds the key \<^verbatim>\<open>rulings\<close> to it later (\<open>None\<close>: the
  key is not there yet).
\<close>

record image_url =
  normal :: json
  border_crop :: json
  small :: json

record card_metadata =
  md_name :: json
  md_id :: json
  md_image_url :: image_url
  md_mana_cost :: json
  md_cmc :: json
  md_type :: json
  md_colors :: json
  md_oracle_text :: json
  md_keywords :: json
  md_legality :: json
  md_rulings :: "string list option"

text \<open>
  The dictionaries are objects: the cache and the caller hold references to the same
  one, and \<^verbatim>\<open>fetch_full_card\<close> writes into it. So the state has a store of
  dictionaries, and \<open>card_cache\<close> maps a name to an address. The lists of rulings are
  never written after they are built and are kept as values. \<open>requests\<close> is the log of
  the calls of \<^verbatim>\<open>self.client.get\<close> so far, oldest first, each with the request it was
  given.

  The keys of \<open>rulings_cache\<close> are the values \<^verbatim>\<open>fetch_full_card\<close> finds under
  \<^verbatim>\<open>id\<close>, strings in practice. Two keys are the same when they are the same value;
  Python also takes \<^verbatim>\<open>True\<close>, \<^verbatim>\<open>1\<close> and \<^verbatim>\<open>1.0\<close> for one key, which no
  statement below depends on.

  The semaphore and the sleep of \<^verbatim>\<open>rate_limit_ms\<close> in front of each request order
  and delay the requests of concurrent tasks; one call on its own always finds the
  semaphore free and releases it on every path, so they do not appear in the state.
\<close>

type_synonym addr = nat

record service =
  rate_limit_ms :: nat
  card_cache :: "string \<rightharpoonup> addr"
  rulings_cache :: "json \<rightharpoonup> string list"
  heap :: "addr \<Rightarrow> card_metadata"
  next_addr :: addr
  requests :: "request list"

definition no_metadata :: card_metadata where
  "no_metadata =
     \<lparr>md_name = JNull, md_id = JNull,
      md_image_url = \<lparr>normal = JNull, border_crop = JNull, small = JNull\<rparr>,
      md_mana_cost = JNull, md_cmc = JNull, md_type = JNull, md_colors = JNull,
      md_oracle_text = JNull, md_keywords = JNull, md_legality = JNull,
      md_rulings = None\<rparr>"

text \<open>\<^verbatim>\<open>ScryfallService(rate_limit_ms)\<close>: empty caches, nothing allocated, nothing sent.\<close>

definition init :: "nat \<Rightarrow> service" where
  "init ms =
     \<lparr>rate_limit_ms = ms, card_cache = Map.empty, rulings_cache = Map.empty,
      heap = (\<lambda>_. no_metadata), next_addr = 0, requests = []\<rparr>"

definition card_not_found :: "string \<Rightarrow> error" where
  "card_not_found name =
     CardFetchError (''Card '' @ [CHR 0x27] @ name @ [CHR 0x27] @
       '' not found in Scryfall database.'')"

definition card_id_not_found :: "string \<Rightarrow> error" where
  "card_id_not_found card_id =
     CardFetchError (''Card ID '' @ [CHR 0x27] @ card_id @ [CHR 0x27] @
       '' not found in Scryfall database.'')"

text \<open>The dictionary literal of \<^verbatim>\<open>fetch_card_data\<close>, its entries in the source's order.\<close>

definition build_metadata :: "json \<Rightarrow> error + card_metadata" where
  "build_metadata data =
     ebind (py_get data ''name'' JNull) (\<lambda>v_name.
     ebind (py_get data ''id'' JNull) (\<lambda>v_id.
     ebind (ebind (py_get data ''image_uris'' (JObj [])) (\<lambda>u. py_get u ''normal'' JNull))
       (\<lambda>v_normal.
     ebind (ebind (py_get data ''image_uris'' (JObj [])) (\<lambda>u. py_get u ''border_crop'' JNull))
       (\<lambda>v_border_crop.
     ebind (ebind (py_get data ''image_uris'' (JObj [])) (\<lambda>u. py_get u ''small'' JNull))
       (\<lambda>v_small.
     ebind (py_get data ''mana_cost'' JNull) (\<lambda>v_mana_cost.
     ebind (py_get data ''cmc'' JNull) (\<lambda>v_cmc.
     ebind (py_get data ''type_line'' JNull) (\<lambda>v_type.
     ebind (py_get data ''colors'' JNull) (\<lambda>v_colors.
     ebind (py_get data ''oracle_text'' JNull) (\<lambda>v_oracle_text.
     ebind (py_get data ''keywords'' JNull) (\<lambda>v_keywords.
     ebind (ebind (py_get data ''legalities'' (JObj [])) (\<lambda>l. py_get l ''commander'' JNull))
       (\<lambda>v_legality.
     Inr \<lparr>md_name = v_name, md_id = v_id,
          md_image_url =
            \<lparr>normal = v_normal, border_crop = v_border_crop, small = v_small\<rparr>,
          md_mana_cost = v_mana_cost, md_cmc = v_cmc, md_type = v_type,
          md_colors = v_colors, md_oracle_text = v_oracle_text,
          md_keywords = v_keywords, md_legality = v_legality,
          md_rulings = None\<rparr>))))))))))))"

text \<open>
  A call of \<^verbatim>\<open>self.client.get\<close>: the upstream sees the log so far, and the call is
  logged, whether it gives an answer or raises. Where \<open>http_get\<close> is \<open>Some\<close>, the
  request has been sent and answered. Where it is \<open>None\<close> the call raises, and the log
  does not tell whether the client sent the request and got no answer or refused to
  send it (as it does for a URL with a control character in it): no statement below
  takes such an entry of the log for a request that reached the upstream.
\<close>

definition send :: "env \<Rightarrow> request \<Rightarrow> service \<Rightarrow> response option \<times> service" where
  "send ev rq s = (http_get ev (requests s) rq, s\<lparr>requests := requests s @ [rq]\<rparr>)"

definition fetch_card_data :: "env \<Rightarrow> string \<Rightarrow> service \<Rightarrow> (error + addr) \<times> service" where
  "fetch_card_data ev name s =
     (case card_cache s name of
        Some card_metadata \<Rightarrow> (Inr card_metadata, s)
      | None \<Rightarrow>
          (case send ev (NamedLookup name) s of
             (None, s1) \<Rightarrow> (Inl TransportError, s1)
           | (Some response, s1) \<Rightarrow>
               if status_code response \<noteq> 200 then (Inl (card_not_found name), s1)
               else
                 (case json_body response of
                    None \<Rightarrow> (Inl JSONDecodeError, s1)
                  | Some data \<Rightarrow>
                      (case build_metadata data of
                         Inl e \<Rightarrow> (Inl e, s1)
                       | Inr card_metadata \<Rightarrow>
                           (Inr (next_addr s1),
                            s1\<lparr>heap := (heap s1)(next_addr s1 := card_metadata),
                               next_addr := Suc (next_addr s1),
                               card_cache := (card_cache s1)(name \<mapsto> next_addr s1)\<rparr>)))))"

text \<open>
  The loop of \<^verbatim>\<open>fetch_rulings\<close>: \<open>clean_rulings\<close> is the list built so far, and each
  entry is appended at its end.
\<close>

fun rulings_loop :: "(json \<Rightarrow> string) \<Rightarrow> json list \<Rightarrow> string list \<Rightarrow> error + string list" where
  "rulings_loop rp [] clean_rulings = Inr clean_rulings"
| "rulings_loop rp (ruling # rest) clean_rulings =
     ebind (py_get ruling ''published_at'' JNull) (\<lambda>published_at.
     ebind (py_get ruling ''comment'' JNull) (\<lambda>comment.
       rulings_loop rp rest
         (clean_rulings @ [''['' @ py_str rp published_at @ ''] '' @ py_str rp comment])))"

definition fetch_rulings :: "env \<Rightarrow> json \<Rightarrow> service \<Rightarrow> (error + string list) \<times> service" where
  "fetch_rulings ev card_id s =
     (if \<not> hashable card_id then (Inl TypeError, s)
      else
        (case rulings_cache s card_id of
           Some clean_rulings \<Rightarrow> (Inr clean_rulings, s)
         | None \<Rightarrow>
             (case send ev (RulingsLookup (py_str (py_repr ev) card_id)) s of
                (None, s1) \<Rightarrow> (Inl TransportError, s1)
              | (Some response, s1) \<Rightarrow>
                  if status_code response \<noteq> 200
                  then (Inl (card_id_not_found (py_str (py_repr ev) card_id)), s1)
                  else
                    (case json_body response of
                       None \<Rightarrow> (Inl JSONDecodeError, s1)
                     | Some body \<Rightarrow>
                         (case ebind (py_get body ''data'' (JArr [])) (\<lambda>data.
                               ebind (py_iter data) (\<lambda>entries.
                                 rulings_loop (py_repr ev) entries [])) of
                            Inl e \<Rightarrow> (Inl e, s1)
                          | Inr clean_rulings \<Rightarrow>
                              (Inr clean_rulings,
                               s1\<lparr>rulings_cache :=
                                    (rulings_cache s1)(card_id \<mapsto> clean_rulings)\<rparr>))))))"

definition fetch_full_card :: "env \<Rightarrow> string \<Rightarrow> service \<Rightarrow> (error + addr) \<times> service" where
  "fetch_full_card ev name s =
     (case fetch_card_data ev name s of
        (Inl e, s1) \<Rightarrow> (Inl e, s1)
      | (Inr card_data, s1) \<Rightarrow>
          (case fetch_rulings ev (md_id (heap s1 card_data)) s1 of
             (Inl e, s2) \<Rightarrow> (Inl e, s2)
           | (Inr card_rulings, s2) \<Rightarrow>
               (Inr card_data,
                s2\<lparr>heap := (heap s2)
                     (card_data := (heap s2 card_data)\<lparr>md_rulings := Some card_rulings\<rparr>)\<rparr>)))"

section \<open>The batch\<close>

text \<open>
  \<^verbatim>\<open>batch_fetch_card_data\<close> creates one task per name, in the order of the list, and
  waits for them. The tasks are not cancelled on either path, so each one runs to its
  end. In the program the tasks take turns at their \<^verbatim>\<open>await\<close>s (the semaphore, the
  sleep, the request); here a task runs as one step, and \<open>sched\<close> lists the indices
  of the tasks in the order in which they run and complete (a permutation of the
  indices of \<open>cards\<close>). The two differ in the order of the requests, and for a name
  that occurs twice in \<open>cards\<close>: in the program both tasks test the name cache before
  either writes it, so the name is requested twice and its key bound a second time,
  where here the second task finds the record of the first. What is stated below of a
  batch is whether it returns a list or raises, the length of the list and the error
  raised, the record the cache holds under a name of a list without repeated names, and
  the fields of the records returned, which are the same in both.
  \<open>run_tasks\<close> gives the outcome of each task, in completion order, paired with the
  index of the task.
\<close>

fun run_tasks ::
  "env \<Rightarrow> string list \<Rightarrow> nat list \<Rightarrow> service \<Rightarrow> (nat \<times> (error + addr)) list \<times> service" where
  "run_tasks ev cards [] s = ([], s)"
| "run_tasks ev cards (i # rest) s =
     (case fetch_full_card ev (cards ! i) s of
        (r, s1) \<Rightarrow>
          (case run_tasks ev cards rest s1 of
             (finished, s2) \<Rightarrow> ((i, r) # finished, s2)))"

text \<open>
  \<^verbatim>\<open>asyncio.gather(*tasks)\<close> without \<^verbatim>\<open>return_exceptions\<close>: the first exception
  raised by a task is raised to the caller; when no task raises, the results come in
  the order of the arguments, whatever the order of completion.
\<close>

fun first_error :: "(error + 'a) list \<Rightarrow> error option" where
  "first_error [] = None"
| "first_error (Inl e # rest) = Some e"
| "first_error (Inr v # rest) = first_error rest"

fun results_of :: "(error + 'a) list \<Rightarrow> 'a list" where
  "results_of [] = []"
| "results_of (Inl e # rest) = results_of rest"
| "results_of (Inr v # rest) = v # results_of rest"

definition gather :: "(nat \<times> (error + 'a)) list \<Rightarrow> error + 'a list" where
  "gather finished =
     (case first_error (map snd finished) of
        Some e \<Rightarrow> Inl e
      | None \<Rightarrow> Inr (results_of (map snd (sort_key fst finished))))"

text \<open>
  The loop over \<^verbatim>\<open>asyncio.as_completed(tasks)\<close>: \<^verbatim>\<open>await task\<close> gives the result
  of a finished task or raises its exception; \<open>pbar\<close> counts the updates of the
  progress bar.
\<close>

fun progress_loop :: "(error + 'a) list \<Rightarrow> 'a list \<Rightarrow> nat \<Rightarrow> error + ('a list \<times> nat)" where
  "progress_loop [] data pbar = Inr (data, pbar)"
| "progress_loop (Inl e # rest) data pbar = Inl e"
| "progress_loop (Inr result # rest) data pbar = progress_loop rest (data @ [result]) (pbar + 1)"

definition batch_fetch_card_data ::
  "env \<Rightarrow> string list \<Rightarrow> bool \<Rightarrow> nat list \<Rightarrow> service \<Rightarrow> (error + addr list) \<times> service" where
  "batch_fetch_card_data ev cards progress sched s =
     (case run_tasks ev cards sched s of
        (finished, s1) \<Rightarrow>
          (if progress
           then (case progress_loop (map snd finished) [] 0 of
                   Inl e \<Rightarrow> Inl e
                 | Inr (data, pbar) \<Rightarrow> Inr data)
           else gather finished,
           s1))"

section \<open>An upstream to run the service on\<close>

text \<open>
  A small upstream for the concrete runs below. It knows the card \<open>Lightning Bolt\<close>
  with two rulings, the card \<open>Island\<close> (a payload with a name and an id only) with no
  ruling, and the card \<open>Ghost\<close> whose id the rulings endpoint does not know; it answers
  the name \<open>Odd\<close> with a payload whose \<open>image_uris\<close> is \<^verbatim>\<open>null\<close>, and every other
  request with status 404.
\<close>

definition bolt :: json where
  "bolt =
     JObj [(''name'', JStr ''Lightning Bolt''), (''id'', JStr ''bolt-id''),
       (''image_uris'', JObj [(''normal'', JStr ''n.jpg''), (''small'', JStr ''s.jpg'')]),
       (''mana_cost'', JStr ''{R}''), (''cmc'', JNum ''1.0''),
       (''type_line'', JStr ''Instant''), (''colors'', JArr [JStr ''R'']),
       (''oracle_text'', JStr ''Lightning Bolt deals 3 damage to any target.''),
       (''keywords'', JArr []), (''legalities'', JObj [(''commander'', JStr ''legal'')])]"

definition bolt_rulings :: "json list" where
  "bolt_rulings =
     [JObj [(''published_at'', JStr ''2020-01-01''), (''comment'', JStr ''First.'')],
      JObj [(''source'', JStr ''wotc''), (''published_at'', JStr ''2021-02-03''),
        (''comment'', JStr ''Second.'')]]"

definition demo_http :: "request list \<Rightarrow> request \<Rightarrow> response option" where
  "demo_http sent rq =
     (case rq of
        NamedLookup n \<Rightarrow>
          if n = ''Lightning Bolt'' then Some (Response 200 (Some bolt))
          else if n = ''Island''
          then Some (Response 200
                 (Some (JObj [(''name'', JStr ''Island''), (''id'', JStr ''island-id'')])))
          else if n = ''Ghost''
          then Some (Response 200
                 (Some (JObj [(''name'', JStr ''Ghost''), (''id'', JStr ''ghost-id'')])))
          else if n = ''Odd''
          then Some (Response 200
                 (Some (JObj [(''name'', JStr ''Odd''), (''image_uris'', JNull)])))
          else Some (Response 404 (Some (JObj [])))
      | RulingsLookup i \<Rightarrow>
          if i = ''bolt-id''
          then Some (Response 200 (Some (JObj [(''data'', JArr bolt_rulings)])))
          else if i = ''island-id''
          then Some (Response 200 (Some (JObj [(''data'', JArr [])])))
          else Some (Response 404 (Some (JObj []))))"

definition demo :: env where
  "demo = \<lparr>http_get = demo_http, py_repr = (\<lambda>v. [])\<rparr>"

section \<open>Words of the specification\<close>

text \<open>
  The specification speaks of an upstream ruling entry as a pair of a publication date
  and a comment text, and of the formatted ruling \<^verbatim>\<open>[date] comment\<close>. In a payload such
  an entry is a dictionary with the date under \<^verbatim>\<open>published_at\<close> and the text under
  \<^verbatim>\<open>comment\<close>, both strings; it may have other keys.
\<close>

fun spec_ruling_entry :: "json \<Rightarrow> string \<times> string \<Rightarrow> bool" where
  "spec_ruling_entry (JObj kv) (date, comment) =
     (map_of kv ''published_at'' = Some (JStr date) \<and>
      map_of kv ''comment'' = Some (JStr comment))"
| "spec_ruling_entry _ _ = False"

fun spec_format :: "string \<times> string \<Rightarrow> string" where
  "spec_format (date, comment) = ''['' @ date @ ''] '' @ comment"

text \<open>
  The value of a field of a payload, with \<open>JNull\<close> (Python's \<^verbatim>\<open>None\<close>) as the sentinel
  of an absent one; \<open>spec_subfield\<close> reads a field of a nested dictionary.
  \<open>dict_or_absent\<close> says that a key is absent or holds a dictionary.
\<close>

definition spec_field :: "(string \<times> json) list \<Rightarrow> string \<Rightarrow> json" where
  "spec_field kv k = (case map_of kv k of None \<Rightarrow> JNull | Some v \<Rightarrow> v)"

definition spec_subfield :: "(string \<times> json) list \<Rightarrow> string \<Rightarrow> string \<Rightarrow> json" where
  "spec_subfield kv k k2 =
     (case map_of kv k of Some (JObj u) \<Rightarrow> spec_field u k2 | _ \<Rightarrow> JNull)"

definition dict_or_absent :: "(string \<times> json) list \<Rightarrow> string \<Rightarrow> bool" where
  "dict_or_absent kv k =
     (case map_of kv k of None \<Rightarrow> True | Some (JObj u) \<Rightarrow> True | Some _ \<Rightarrow> False)"

section \<open>Sequences of calls\<close>

text \<open>
  The three lookups of the service as operations, run one after another on the state of
  one instance.
\<close>

datatype operation = FetchCard string | FetchRulings json | FetchFull string

fun perform :: "env \<Rightarrow> operation \<Rightarrow> service \<Rightarrow> service" where
  "perform ev (FetchCard name) s = snd (fetch_card_data ev name s)"
| "perform ev (FetchRulings card_id) s = snd (fetch_rulings ev card_id s)"
| "perform ev (FetchFull name) s = snd (fetch_full_card ev name s)"

fun perform_all :: "env \<Rightarrow> operation list \<Rightarrow> service \<Rightarrow> service" where
  "perform_all ev [] s = s"
| "perform_all ev (op # ops) s = perform_all ev ops (perform ev op s)"

text \<open>
  \<open>allocated\<close>: the records the name cache refers to have been created (their addresses
  are below the next free one). \<open>same_fields\<close>: two records agree on every key that
  \<^verbatim>\<open>fetch_card_data\<close> fills, whatever their \<^verbatim>\<open>rulings\<close>. \<open>extends s s'\<close>: the state
  \<open>s'\<close> keeps every entry of the caches of \<open>s\<close> and the fields of every record of \<open>s\<close>.
\<close>

definition allocated :: "service \<Rightarrow> bool" where
  "allocated s = (\<forall>k a. card_cache s k = Some a \<longrightarrow> a < next_addr s)"

definition same_fields :: "card_metadata \<Rightarrow> card_metadata \<Rightarrow> bool" where
  "same_fields m m' = (m\<lparr>md_rulings := None\<rparr> = m'\<lparr>md_rulings := None\<rparr>)"

definition extends :: "service \<Rightarrow> service \<Rightarrow> bool" where
  "extends s s' =
     (next_addr s \<le> next_addr s' \<and>
      (\<forall>k a. card_cache s k = Some a \<longrightarrow> card_cache s' k = Some a) \<and>
      (\<forall>a. a < next_addr s \<longrightarrow> same_fields (heap s' a) (heap s a)) \<and>
      (\<forall>k l. rulings_cache s k = Some l \<longrightarrow> rulings_cache s' k = Some l))"

section \<open>The record an upstream gives for a name\<close>

text \<open>
  \<open>stable\<close>: the answers of the upstream do not depend on what was asked before.
  \<open>answer_metadata\<close>: the record \<^verbatim>\<open>fetch_card_data\<close> builds from the answer of such an
  upstream to the named lookup of a name, if the answer has status 200 and a payload
  the dictionary literal can be built from. \<open>coherent\<close>: every record of the name cache
  has the fields of the record the upstream gives for its name.
\<close>

definition stable :: "env \<Rightarrow> bool" where
  "stable ev = (\<forall>sent rq. http_get ev sent rq = http_get ev [] rq)"

definition answer_metadata :: "env \<Rightarrow> string \<Rightarrow> card_metadata option" where
  "answer_metadata ev name =
     (case http_get ev [] (NamedLookup name) of
        None \<Rightarrow> None
      | Some response \<Rightarrow>
          if status_code response \<noteq> 200 then None
          else
            (case json_body response of
               None \<Rightarrow> None
             | Some data \<Rightarrow>
                 (case build_metadata data of Inl e \<Rightarrow> None | Inr m \<Rightarrow> Some m)))"

definition coherent :: "env \<Rightarrow> service \<Rightarrow> bool" where
  "coherent ev s =
     (\<forall>k a. card_cache s k = Some a \<longrightarrow>
        (\<exists>m. answer_metadata ev k = Some m \<and> same_fields (heap s a) m))"

section \<open>Single calls\<close>

lemma fetch_card_data_hit:
  "card_cache s name = Some a \<Longrightarrow> fetch_card_data ev name s = (Inr a, s)"
  by (simp add: fetch_card_data_def)

lemma fetch_card_data_stores:
  "fetch_card_data ev name s = (Inr a, s1) \<Longrightarrow> card_cache s1 name = Some a"
  by (auto simp: fetch_card_data_def send_def split: option.splits sum.splits if_splits)

lemma fetch_card_data_requests:
  "fetch_card_data ev name s = (r, s1) \<Longrightarrow>
   requests s1 =
     (if card_cache s name = None then requests s @ [NamedLookup name] else requests s)"
  by (auto simp: fetch_card_data_def send_def split: option.splits sum.splits if_splits)

lemma demo_bolt_fetch: "fst (fetch_card_data demo ''Lightning Bolt'' (init 100)) = Inr 0"
  by code_simp

text \<open>
  C3. After a call of \<^verbatim>\<open>fetch_card_data\<close> that succeeded, a second call with the same
  name returns the same record and leaves the state as it is: it does not call the
  client, so it sends nothing. The two calls together call the client at most once.
\<close>

theorem fetch_card_data_second_call_cached:
  assumes "fetch_card_data ev name s = (Inr r, s1)"
  shows "fetch_card_data ev name s1 = (Inr r, s1) \<and>
         length (requests (snd (fetch_card_data ev name s1))) \<le> Suc (length (requests s))"
proof -
  have hit: "fetch_card_data ev name s1 = (Inr r, s1)"
    by (rule fetch_card_data_hit [OF fetch_card_data_stores [OF assms]])
  have "length (requests s1) \<le> Suc (length (requests s))"
    by (simp add: fetch_card_data_requests [OF assms])
  with hit show ?thesis by simp
qed

theorem fetch_card_data_second_call_cached_witness:
  "fetch_card_data demo ''Lightning Bolt'' (init 100) =
     (Inr 0, snd (fetch_card_data demo ''Lightning Bolt'' (init 100))) \<and>
   fetch_card_data demo ''Lightning Bolt''
       (snd (fetch_card_data demo ''Lightning Bolt'' (init 100))) =
     (Inr 0, snd (fetch_card_data demo ''Lightning Bolt'' (init 100))) \<and>
   length (requests (snd (fetch_card_data demo ''Lightning Bolt''
       (snd (fetch_card_data demo ''Lightning Bolt'' (init 100))))))
     \<le> Suc (length (requests (init 100)))"
proof -
  have h: "fetch_card_data demo ''Lightning Bolt'' (init 100) =
     (Inr 0, snd (fetch_card_data demo ''Lightning Bolt'' (init 100)))"
    using demo_bolt_fetch by (simp add: prod_eq_iff)
  show ?thesis
    by (rule conjI [OF h fetch_card_data_second_call_cached [OF h]])
qed

lemma fetch_card_data_not_found:
  assumes "card_cache s name = None"
    and "http_get ev (requests s) (NamedLookup name) = Some rsp"
    and "status_code rsp \<noteq> 200"
  shows "fetch_card_data ev name s =
           (Inl (card_not_found name), s\<lparr>requests := requests s @ [NamedLookup name]\<rparr>)"
  using assms by (simp add: fetch_card_data_def send_def)

lemma fetch_rulings_not_found:
  assumes "hashable card_id" and "rulings_cache s card_id = None"
    and "http_get ev (requests s) (RulingsLookup (py_str (py_repr ev) card_id)) = Some rsp"
    and "status_code rsp \<noteq> 200"
  shows "fetch_rulings ev card_id s =
           (Inl (card_id_not_found (py_str (py_repr ev) card_id)),
            s\<lparr>requests := requests s @ [RulingsLookup (py_str (py_repr ev) card_id)]\<rparr>)"
  using assms by (simp add: fetch_rulings_def send_def)

lemma fetch_card_data_miss_requests:
  "card_cache s name = None \<Longrightarrow>
   requests (snd (fetch_card_data ev name s)) = requests s @ [NamedLookup name]"
  using fetch_card_data_requests [of ev name s "fst (fetch_card_data ev name s)" "snd (fetch_card_data ev name s)"]
  by simp

lemma fetch_rulings_requests:
  "fetch_rulings ev card_id s = (r, s1) \<Longrightarrow>
   requests s1 =
     (if hashable card_id \<and> rulings_cache s card_id = None
      then requests s @ [RulingsLookup (py_str (py_repr ev) card_id)] else requests s)"
  by (auto simp: fetch_rulings_def send_def split: option.splits sum.splits if_splits)

lemma fetch_rulings_miss_requests:
  "hashable card_id \<Longrightarrow> rulings_cache s card_id = None \<Longrightarrow>
   requests (snd (fetch_rulings ev card_id s)) =
     requests s @ [RulingsLookup (py_str (py_repr ev) card_id)]"
  using fetch_rulings_requests [of ev card_id s "fst (fetch_rulings ev card_id s)" "snd (fetch_rulings ev card_id s)"]
  by simp

text \<open>
  C10. A lookup that fails on a status other than 200 is not cached: the name (or id) was
  not in its cache, the call fails with \<^verbatim>\<open>CardFetchError\<close>, both caches are left as
  they were, and a second call with the same key asks the client for it again.
\<close>

theorem failed_lookup_not_cached:
  "(card_cache s name = None \<and>
    http_get ev (requests s) (NamedLookup name) = Some rsp \<and> status_code rsp \<noteq> 200 \<longrightarrow>
      fst (fetch_card_data ev name s) = Inl (card_not_found name) \<and>
      card_cache (snd (fetch_card_data ev name s)) = card_cache s \<and>
      rulings_cache (snd (fetch_card_data ev name s)) = rulings_cache s \<and>
      requests (snd (fetch_card_data ev name (snd (fetch_card_data ev name s)))) =
        requests s @ [NamedLookup name, NamedLookup name]) \<and>
   (hashable card_id \<and> rulings_cache s card_id = None \<and>
    http_get ev (requests s) (RulingsLookup (py_str (py_repr ev) card_id)) = Some rsp' \<and>
    status_code rsp' \<noteq> 200 \<longrightarrow>
      fst (fetch_rulings ev card_id s) = Inl (card_id_not_found (py_str (py_repr ev) card_id)) \<and>
      card_cache (snd (fetch_rulings ev card_id s)) = card_cache s \<and>
      rulings_cache (snd (fetch_rulings ev card_id s)) = rulings_cache s \<and>
      requests (snd (fetch_rulings ev card_id (snd (fetch_rulings ev card_id s)))) =
        requests s @ [RulingsLookup (py_str (py_repr ev) card_id),
                      RulingsLookup (py_str (py_repr ev) card_id)])"
proof (intro conjI impI)
  assume h: "card_cache s name = None \<and>
    http_get ev (requests s) (NamedLookup name) = Some rsp \<and> status_code rsp \<noteq> 200"
  then have eq: "fetch_card_data ev name s =
      (Inl (card_not_found name), s\<lparr>requests := requests s @ [NamedLookup name]\<rparr>)"
    by (simp add: fetch_card_data_not_found)
  show "fst (fetch_card_data ev name s) = Inl (card_not_found name)"
    and "card_cache (snd (fetch_card_data ev name s)) = card_cache s"
    and "rulings_cache (snd (fetch_card_data ev name s)) = rulings_cache s"
    by (simp_all add: eq)
  have "card_cache (s\<lparr>requests := requests s @ [NamedLookup name]\<rparr>) name = None"
    using h by simp
  from fetch_card_data_miss_requests [OF this]
  show "requests (snd (fetch_card_data ev name (snd (fetch_card_data ev name s)))) =
        requests s @ [NamedLookup name, NamedLookup name]"
    by (simp add: eq)
next
  assume h: "hashable card_id \<and> rulings_cache s card_id = None \<and>
    http_get ev (requests s) (RulingsLookup (py_str (py_repr ev) card_id)) = Some rsp' \<and>
    status_code rsp' \<noteq> 200"
  then have eq: "fetch_rulings ev card_id s =
           (Inl (card_id_not_found (py_str (py_repr ev) card_id)),
            s\<lparr>requests := requests s @ [RulingsLookup (py_str (py_repr ev) card_id)]\<rparr>)"
    by (simp add: fetch_rulings_not_found)
  show "fst (fetch_rulings ev card_id s) = Inl (card_id_not_found (py_str (py_repr ev) card_id))"
    and "card_cache (snd (fetch_rulings ev card_id s)) = card_cache s"
    and "rulings_cache (snd (fetch_rulings ev card_id s)) = rulings_cache s"
    by (simp_all add: eq)
  have "rulings_cache (s\<lparr>requests := requests s @ [RulingsLookup (py_str (py_repr ev) card_id)]\<rparr>) card_id = None"
    using h by simp
  from fetch_rulings_miss_requests [OF _ this, of ev] h
  show "requests (snd (fetch_rulings ev card_id (snd (fetch_rulings ev card_id s)))) =
        requests s @ [RulingsLookup (py_str (py_repr ev) card_id),
                      RulingsLookup (py_str (py_repr ev) card_id)]"
    by (simp add: eq)
qed

lemma demo_unknown_card:
  "card_cache (init 100) ''UnknownCard123'' = None \<and>
   http_get demo (requests (init 100)) (NamedLookup ''UnknownCard123'') =
     Some (Response 404 (Some (JObj []))) \<and>
   status_code (Response 404 (Some (JObj []))) \<noteq> 200"
  by (simp add: init_def demo_def demo_http_def)

lemma demo_unknown_id:
  "hashable (JStr ''no-such-id'') \<and> rulings_cache (init 100) (JStr ''no-such-id'') = None \<and>
   http_get demo (requests (init 100))
     (RulingsLookup (py_str (py_repr demo) (JStr ''no-such-id''))) =
     Some (Response 404 (Some (JObj []))) \<and>
   status_code (Response 404 (Some (JObj []))) \<noteq> 200"
  by (simp add: init_def demo_def demo_http_def)

theorem failed_lookup_not_cached_witness:
  "(card_cache (init 100) ''UnknownCard123'' = None \<and>
    http_get demo (requests (init 100)) (NamedLookup ''UnknownCard123'') =
      Some (Response 404 (Some (JObj []))) \<and>
    status_code (Response 404 (Some (JObj []))) \<noteq> 200) \<and>
   (fst (fetch_card_data demo ''UnknownCard123'' (init 100)) =
      Inl (card_not_found ''UnknownCard123'') \<and>
    card_cache (snd (fetch_card_data demo ''UnknownCard123'' (init 100))) =
      card_cache (init 100) \<and>
    rulings_cache (snd (fetch_card_data demo ''UnknownCard123'' (init 100))) =
      rulings_cache (init 100) \<and>
    requests (snd (fetch_card_data demo ''UnknownCard123''
        (snd (fetch_card_data demo ''UnknownCard123'' (init 100))))) =
      requests (init 100) @ [NamedLookup ''UnknownCard123'', NamedLookup ''UnknownCard123'']) \<and>
   (hashable (JStr ''no-such-id'') \<and> rulings_cache (init 100) (JStr ''no-such-id'') = None \<and>
    http_get demo (requests (init 100))
      (RulingsLookup (py_str (py_repr demo) (JStr ''no-such-id''))) =
      Some (Response 404 (Some (JObj []))) \<and>
    status_code (Response 404 (Some (JObj []))) \<noteq> 200) \<and>
   (fst (fetch_rulings demo (JStr ''no-such-id'') (init 100)) =
      Inl (card_id_not_found (py_str (py_repr demo) (JStr ''no-such-id''))) \<and>
    card_cache (snd (fetch_rulings demo (JStr ''no-such-id'') (init 100))) =
      card_cache (init 100) \<and>
    rulings_cache (snd (fetch_rulings demo (JStr ''no-such-id'') (init 100))) =
      rulings_cache (init 100) \<and>
    requests (snd (fetch_rulings demo (JStr ''no-such-id'')
        (snd (fetch_rulings demo (JStr ''no-such-id'') (init 100))))) =
      requests (init 100) @
        [RulingsLookup (py_str (py_repr demo) (JStr ''no-such-id'')),
         RulingsLookup (py_str (py_repr demo) (JStr ''no-such-id''))])"
proof -
  note t = failed_lookup_not_cached [of "init 100" "''UnknownCard123''" demo
      "Response 404 (Some (JObj []))" "JStr ''no-such-id''" "Response 404 (Some (JObj []))"]
  from mp [OF conjunct1 [OF t] demo_unknown_card] mp [OF conjunct2 [OF t] demo_unknown_id]
    demo_unknown_card demo_unknown_id
  show ?thesis by blast
qed

section \<open>The full card\<close>

lemma fetch_card_data_fail_miss:
  "fetch_card_data ev name s = (Inl e, s1) \<Longrightarrow> card_cache s name = None"
  by (auto simp: fetch_card_data_def split: option.splits)

text \<open>
  C5. When the card lookup of \<^verbatim>\<open>fetch_full_card\<close> fails, the call fails with that error
  and has called the client for the named lookup only, never for rulings. When the card
  lookup
  succeeds and the rulings lookup fails, the call fails with the error of the rulings
  lookup. A call that returns a record returns the record of the card lookup with the
  rulings of the rulings lookup written into it: the caller gets an error or a
  complete record.
\<close>

theorem fetch_full_card_all_or_nothing:
  "(fst (fetch_card_data ev name s) = Inl e \<longrightarrow>
      fetch_full_card ev name s = (Inl e, snd (fetch_card_data ev name s)) \<and>
      requests (snd (fetch_full_card ev name s)) = requests s @ [NamedLookup name]) \<and>
   (fst (fetch_card_data ev name s) = Inr a \<and>
    fst (fetch_rulings ev (md_id (heap (snd (fetch_card_data ev name s)) a))
           (snd (fetch_card_data ev name s))) = Inl e \<longrightarrow>
      fst (fetch_full_card ev name s) = Inl e) \<and>
   (fst (fetch_full_card ev name s) = Inr a \<longrightarrow>
      fst (fetch_card_data ev name s) = Inr a \<and>
      (\<exists>card_rulings.
         fst (fetch_rulings ev (md_id (heap (snd (fetch_card_data ev name s)) a))
                (snd (fetch_card_data ev name s))) = Inr card_rulings \<and>
         md_rulings (heap (snd (fetch_full_card ev name s)) a) = Some card_rulings))"
proof -
  obtain r s1 where c: "fetch_card_data ev name s = (r, s1)"
    by (cases "fetch_card_data ev name s")
  show ?thesis
  proof (cases r)
    case (Inl e')
    have "card_cache s name = None"
      using c Inl by (auto dest: fetch_card_data_fail_miss)
    then have "requests s1 = requests s @ [NamedLookup name]"
      using fetch_card_data_requests [OF c] by simp
    then show ?thesis
      using c Inl by (simp add: fetch_full_card_def)
  next
    case (Inr a')
    obtain r2 s2 where f: "fetch_rulings ev (md_id (heap s1 a')) s1 = (r2, s2)"
      by (cases "fetch_rulings ev (md_id (heap s1 a')) s1")
    show ?thesis
      using c Inr f by (cases r2) (auto simp: fetch_full_card_def)
  qed
qed

lemma demo_unknown_fails:
  "fst (fetch_card_data demo ''UnknownCard123'' (init 100)) = Inl (card_not_found ''UnknownCard123'')"
  by code_simp

lemma demo_ghost:
  "fst (fetch_card_data demo ''Ghost'' (init 100)) = Inr 0 \<and>
   fst (fetch_rulings demo (md_id (heap (snd (fetch_card_data demo ''Ghost'' (init 100))) 0))
           (snd (fetch_card_data demo ''Ghost'' (init 100)))) = Inl (card_id_not_found ''ghost-id'')"
  by code_simp

lemma demo_bolt_full: "fst (fetch_full_card demo ''Lightning Bolt'' (init 100)) = Inr 0"
  by code_simp

theorem fetch_full_card_all_or_nothing_witness:
  "(fst (fetch_card_data demo ''UnknownCard123'' (init 100)) =
      Inl (card_not_found ''UnknownCard123'') \<and>
    fetch_full_card demo ''UnknownCard123'' (init 100) =
      (Inl (card_not_found ''UnknownCard123''),
       snd (fetch_card_data demo ''UnknownCard123'' (init 100))) \<and>
    requests (snd (fetch_full_card demo ''UnknownCard123'' (init 100))) =
      requests (init 100) @ [NamedLookup ''UnknownCard123'']) \<and>
   (fst (fetch_card_data demo ''Ghost'' (init 100)) = Inr 0 \<and>
    fst (fetch_rulings demo (md_id (heap (snd (fetch_card_data demo ''Ghost'' (init 100))) 0))
           (snd (fetch_card_data demo ''Ghost'' (init 100)))) =
      Inl (card_id_not_found ''ghost-id'') \<and>
    fst (fetch_full_card demo ''Ghost'' (init 100)) = Inl (card_id_not_found ''ghost-id'')) \<and>
   (fst (fetch_full_card demo ''Lightning Bolt'' (init 100)) = Inr 0 \<and>
    fst (fetch_card_data demo ''Lightning Bolt'' (init 100)) = Inr 0 \<and>
    (\<exists>card_rulings.
       fst (fetch_rulings demo
              (md_id (heap (snd (fetch_card_data demo ''Lightning Bolt'' (init 100))) 0))
              (snd (fetch_card_data demo ''Lightning Bolt'' (init 100)))) = Inr card_rulings \<and>
       md_rulings (heap (snd (fetch_full_card demo ''Lightning Bolt'' (init 100))) 0) =
         Some card_rulings))"
proof -
  note t1 = fetch_full_card_all_or_nothing
    [of demo "''UnknownCard123''" "init 100" "card_not_found ''UnknownCard123''" 0]
  note t2 = fetch_full_card_all_or_nothing
    [of demo "''Ghost''" "init 100" "card_id_not_found ''ghost-id''" 0]
  note t3 = fetch_full_card_all_or_nothing
    [of demo "''Lightning Bolt''" "init 100" TransportError 0]
  from mp [OF conjunct1 [OF t1] demo_unknown_fails]
    mp [OF conjunct1 [OF conjunct2 [OF t2]] demo_ghost]
    mp [OF conjunct2 [OF conjunct2 [OF t3]] demo_bolt_full]
    demo_unknown_fails demo_ghost demo_bolt_full
  show ?thesis by blast
qed

text \<open>
  C6 does not hold: the service has no check of its own in front of the request. The
  empty name is handed to the client, sent and answered, and so is a text that is no id;
  the failure is the \<^verbatim>\<open>CardFetchError\<close> of the status 404.
\<close>

theorem no_input_validation_counterexample:
  "fst (fetch_card_data demo '''' (init 100)) = Inl (card_not_found '''') \<and>
   requests (snd (fetch_card_data demo '''' (init 100))) = [NamedLookup ''''] \<and>
   fst (fetch_rulings demo (JStr ''not an id'') (init 100)) =
     Inl (card_id_not_found ''not an id'') \<and>
   requests (snd (fetch_rulings demo (JStr ''not an id'') (init 100))) =
     [RulingsLookup ''not an id'']"
  by code_simp

text \<open>
  C6, amended. The service does not validate its input. A name, the empty one included,
  that is not in the name cache and whose named lookup the upstream answers has been
  requested like any other, and \<^verbatim>\<open>fetch_card_data\<close> fails with \<^verbatim>\<open>CardFetchError\<close>
  when the status of the answer is not 200; the same holds of \<^verbatim>\<open>fetch_rulings\<close> for a
  text given as an id, well formed or not, that is not in the rulings cache and whose
  rulings request the upstream answers. Nothing is said of an input for which the
  client raises instead of giving an answer.
\<close>

theorem no_input_validation:
  "(card_cache s name = None \<and>
    http_get ev (requests s) (NamedLookup name) = Some rsp \<longrightarrow>
      requests (snd (fetch_card_data ev name s)) = requests s @ [NamedLookup name] \<and>
      (status_code rsp \<noteq> 200 \<longrightarrow>
         fst (fetch_card_data ev name s) = Inl (card_not_found name))) \<and>
   (rulings_cache s (JStr card_id) = None \<and>
    http_get ev (requests s) (RulingsLookup card_id) = Some rsp' \<longrightarrow>
      requests (snd (fetch_rulings ev (JStr card_id) s)) = requests s @ [RulingsLookup card_id] \<and>
      (status_code rsp' \<noteq> 200 \<longrightarrow>
         fst (fetch_rulings ev (JStr card_id) s) = Inl (card_id_not_found card_id)))"
proof (intro conjI impI)
  assume "card_cache s name = None \<and>
    http_get ev (requests s) (NamedLookup name) = Some rsp"
  then show "requests (snd (fetch_card_data ev name s)) = requests s @ [NamedLookup name]"
    by (simp add: fetch_card_data_miss_requests)
next
  assume "card_cache s name = None \<and>
    http_get ev (requests s) (NamedLookup name) = Some rsp"
    and "status_code rsp \<noteq> 200"
  then show "fst (fetch_card_data ev name s) = Inl (card_not_found name)"
    by (simp add: fetch_card_data_not_found)
next
  assume "rulings_cache s (JStr card_id) = None \<and>
    http_get ev (requests s) (RulingsLookup card_id) = Some rsp'"
  then show "requests (snd (fetch_rulings ev (JStr card_id) s)) =
      requests s @ [RulingsLookup card_id]"
    using fetch_rulings_miss_requests [of "JStr card_id" s ev] by simp
next
  assume "rulings_cache s (JStr card_id) = None \<and>
    http_get ev (requests s) (RulingsLookup card_id) = Some rsp'"
    and "status_code rsp' \<noteq> 200"
  then show "fst (fetch_rulings ev (JStr card_id) s) = Inl (card_id_not_found card_id)"
    using fetch_rulings_not_found [of "JStr card_id" s ev rsp'] by simp
qed

theorem no_input_validation_witness:
  "(card_cache (init 100) '''' = None \<and>
    http_get demo (requests (init 100)) (NamedLookup '''') =
      Some (Response 404 (Some (JObj [])))) \<and>
   requests (snd (fetch_card_data demo '''' (init 100))) =
     requests (init 100) @ [NamedLookup ''''] \<and>
   status_code (Response 404 (Some (JObj []))) \<noteq> 200 \<and>
   fst (fetch_card_data demo '''' (init 100)) = Inl (card_not_found '''') \<and>
   (rulings_cache (init 100) (JStr ''not an id'') = None \<and>
    http_get demo (requests (init 100)) (RulingsLookup ''not an id'') =
      Some (Response 404 (Some (JObj [])))) \<and>
   requests (snd (fetch_rulings demo (JStr ''not an id'') (init 100))) =
     requests (init 100) @ [RulingsLookup ''not an id''] \<and>
   fst (fetch_rulings demo (JStr ''not an id'') (init 100)) =
     Inl (card_id_not_found ''not an id'')"
proof -
  have h1: "card_cache (init 100) '''' = None \<and>
      http_get demo (requests (init 100)) (NamedLookup '''') =
        Some (Response 404 (Some (JObj [])))"
    by (simp add: init_def demo_def demo_http_def)
  have h2: "status_code (Response 404 (Some (JObj []))) \<noteq> 200" by simp
  have h3: "rulings_cache (init 100) (JStr ''not an id'') = None \<and>
      http_get demo (requests (init 100)) (RulingsLookup ''not an id'') =
        Some (Response 404 (Some (JObj [])))"
    by (simp add: init_def demo_def demo_http_def)
  note t = no_input_validation [of "init 100" "''''" demo "Response 404 (Some (JObj []))"
      "''not an id''" "Response 404 (Some (JObj []))"]
  note a = mp [OF conjunct1 [OF t] h1]
  note b = mp [OF conjunct2 [OF t] h3]
  show ?thesis
    by (intro conjI)
      (rule conjunct1 [OF h1] conjunct2 [OF h1] conjunct1 [OF a] h2 mp [OF conjunct2 [OF a] h2]
        conjunct1 [OF h3] conjunct2 [OF h3] conjunct1 [OF b] mp [OF conjunct2 [OF b] h2])+
qed

section \<open>Rulings\<close>

lemma rulings_loop_entries:
  "list_all2 spec_ruling_entry entries rulings \<Longrightarrow>
   rulings_loop rp entries clean = Inr (clean @ map spec_format rulings)"
proof (induction entries rulings arbitrary: clean rule: list_all2_induct)
  case Nil
  then show ?case by simp
next
  case (Cons e entries p rulings)
  obtain date comment where p: "p = (date, comment)" by (cases p)
  from Cons.hyps(1) p obtain kv where e: "e = JObj kv"
    and d: "map_of kv ''published_at'' = Some (JStr date)"
    and c: "map_of kv ''comment'' = Some (JStr comment)"
    by (cases e) auto
  show ?case
    by (simp add: e d c p ebind_def Cons.IH)
qed

text \<open>
  C4. When the id is not cached and the upstream answers the rulings request with status
  200 and a list of ruling entries (or no \<^verbatim>\<open>data\<close> key at all), \<^verbatim>\<open>fetch_rulings\<close>
  returns one string per entry, each of the form \<^verbatim>\<open>[date] comment\<close>, in the order of
  the answer, and stores this list under the id; with no entry the result is the empty
  list.
\<close>

theorem fetch_rulings_format:
  assumes "hashable card_id" and "rulings_cache s card_id = None"
    and "http_get ev (requests s) (RulingsLookup (py_str (py_repr ev) card_id)) =
           Some (Response 200 (Some (JObj body)))"
    and "map_of body ''data'' = Some (JArr entries) \<or>
         map_of body ''data'' = None \<and> entries = []"
    and "list_all2 spec_ruling_entry entries rulings"
  shows "fst (fetch_rulings ev card_id s) = Inr (map spec_format rulings) \<and>
         length (map spec_format rulings) = length entries \<and>
         rulings_cache (snd (fetch_rulings ev card_id s)) card_id = Some (map spec_format rulings)"
proof -
  have loop: "rulings_loop (py_repr ev) entries [] = Inr (map spec_format rulings)"
    using rulings_loop_entries [OF assms(5), of "py_repr ev" "[]"] by simp
  have "ebind (py_get (JObj body) ''data'' (JArr [])) (\<lambda>data.
          ebind (py_iter data) (\<lambda>entries. rulings_loop (py_repr ev) entries [])) =
        Inr (map spec_format rulings)"
    using assms(4) loop by (auto simp: ebind_def)
  then have "fetch_rulings ev card_id s =
      (Inr (map spec_format rulings),
       s\<lparr>requests := requests s @ [RulingsLookup (py_str (py_repr ev) card_id)],
         rulings_cache := (rulings_cache s)(card_id \<mapsto> map spec_format rulings)\<rparr>)"
    using assms(1-3) by (simp add: fetch_rulings_def send_def)
  then show ?thesis
    using list_all2_lengthD [OF assms(5)] by simp
qed

theorem fetch_rulings_format_witness:
  "list_all2 spec_ruling_entry bolt_rulings
     [(''2020-01-01'', ''First.''), (''2021-02-03'', ''Second.'')] \<and>
   fst (fetch_rulings demo (JStr ''bolt-id'') (init 100)) =
     Inr [''[2020-01-01] First.'', ''[2021-02-03] Second.''] \<and>
   fst (fetch_rulings demo (JStr ''island-id'') (init 100)) = Inr []"
proof -
  have b: "list_all2 spec_ruling_entry bolt_rulings
      [(''2020-01-01'', ''First.''), (''2021-02-03'', ''Second.'')]"
    by (simp add: bolt_rulings_def)
  have hb: "http_get demo (requests (init 100)) (RulingsLookup (py_str (py_repr demo) (JStr ''bolt-id''))) =
      Some (Response 200 (Some (JObj [(''data'', JArr bolt_rulings)])))"
    by (simp add: demo_def demo_http_def)
  have hi: "http_get demo (requests (init 100)) (RulingsLookup (py_str (py_repr demo) (JStr ''island-id''))) =
      Some (Response 200 (Some (JObj [(''data'', JArr [])])))"
    by (simp add: demo_def demo_http_def)
  have c: "rulings_cache (init 100) (JStr ''bolt-id'') = None"
    "rulings_cache (init 100) (JStr ''island-id'') = None"
    by (simp_all add: init_def)
  have t1: "fst (fetch_rulings demo (JStr ''bolt-id'') (init 100)) =
     Inr (map spec_format [(''2020-01-01'', ''First.''), (''2021-02-03'', ''Second.'')])"
    using fetch_rulings_format [OF _ c(1) hb _ b] by simp
  have t2: "fst (fetch_rulings demo (JStr ''island-id'') (init 100)) = Inr (map spec_format [])"
    using fetch_rulings_format [OF _ c(2) hi, of "[]" "[]"] by simp
  from b t1 t2 show ?thesis by simp
qed

section \<open>The fields of a card\<close>

lemma py_get_field: "py_get (JObj kv) k JNull = Inr (spec_field kv k)"
  by (simp add: spec_field_def)

lemma py_get_subfield:
  "dict_or_absent kv k \<Longrightarrow>
   ebind (py_get (JObj kv) k (JObj [])) (\<lambda>u. py_get u k2 JNull) = Inr (spec_subfield kv k k2)"
  by (auto simp: dict_or_absent_def spec_subfield_def spec_field_def ebind_def
      split: option.splits json.splits)

lemma build_metadata_dict:
  assumes "dict_or_absent kv ''image_uris''" and "dict_or_absent kv ''legalities''"
  shows "build_metadata (JObj kv) =
     Inr \<lparr>md_name = spec_field kv ''name'', md_id = spec_field kv ''id'',
          md_image_url =
            \<lparr>normal = spec_subfield kv ''image_uris'' ''normal'',
             border_crop = spec_subfield kv ''image_uris'' ''border_crop'',
             small = spec_subfield kv ''image_uris'' ''small''\<rparr>,
          md_mana_cost = spec_field kv ''mana_cost'', md_cmc = spec_field kv ''cmc'',
          md_type = spec_field kv ''type_line'', md_colors = spec_field kv ''colors'',
          md_oracle_text = spec_field kv ''oracle_text'',
          md_keywords = spec_field kv ''keywords'',
          md_legality = spec_subfield kv ''legalities'' ''commander'',
          md_rulings = None\<rparr>"
  unfolding build_metadata_def py_get_field py_get_subfield [OF assms(1)]
    py_get_subfield [OF assms(2)]
  by (simp add: ebind_def)

text \<open>
  C7, amended. When the name is not cached and the upstream answers with status 200 and
  a dictionary in which \<^verbatim>\<open>image_uris\<close> and \<^verbatim>\<open>legalities\<close> are each absent or a
  dictionary, \<^verbatim>\<open>fetch_card_data\<close> returns a new record whose fields are those of the
  payload, with \<open>JNull\<close> for every field the payload does not have; with no
  \<^verbatim>\<open>image_uris\<close> the record still has its image field, every variant \<open>JNull\<close>.
\<close>

theorem fetch_card_data_extracts:
  assumes "card_cache s name = None"
    and "http_get ev (requests s) (NamedLookup name) = Some (Response 200 (Some (JObj kv)))"
    and "dict_or_absent kv ''image_uris''" and "dict_or_absent kv ''legalities''"
  shows "fst (fetch_card_data ev name s) = Inr (next_addr s) \<and>
     heap (snd (fetch_card_data ev name s)) (next_addr s) =
       \<lparr>md_name = spec_field kv ''name'', md_id = spec_field kv ''id'',
        md_image_url =
          \<lparr>normal = spec_subfield kv ''image_uris'' ''normal'',
           border_crop = spec_subfield kv ''image_uris'' ''border_crop'',
           small = spec_subfield kv ''image_uris'' ''small''\<rparr>,
        md_mana_cost = spec_field kv ''mana_cost'', md_cmc = spec_field kv ''cmc'',
        md_type = spec_field kv ''type_line'', md_colors = spec_field kv ''colors'',
        md_oracle_text = spec_field kv ''oracle_text'',
        md_keywords = spec_field kv ''keywords'',
        md_legality = spec_subfield kv ''legalities'' ''commander'',
        md_rulings = None\<rparr> \<and>
     (\<forall>k. map_of kv k = None \<longrightarrow> spec_field kv k = JNull) \<and>
     (\<forall>k k2. map_of kv k = None \<longrightarrow> spec_subfield kv k k2 = JNull) \<and>
     (\<forall>k u k2. map_of kv k = Some (JObj u) \<and> map_of u k2 = None \<longrightarrow>
        spec_subfield kv k k2 = JNull)"
proof -
  have "fetch_card_data ev name s =
    (Inr (next_addr s),
     s\<lparr>requests := requests s @ [NamedLookup name],
       heap := (heap s)(next_addr s :=
         \<lparr>md_name = spec_field kv ''name'', md_id = spec_field kv ''id'',
          md_image_url =
            \<lparr>normal = spec_subfield kv ''image_uris'' ''normal'',
             border_crop = spec_subfield kv ''image_uris'' ''border_crop'',
             small = spec_subfield kv ''image_uris'' ''small''\<rparr>,
          md_mana_cost = spec_field kv ''mana_cost'', md_cmc = spec_field kv ''cmc'',
          md_type = spec_field kv ''type_line'', md_colors = spec_field kv ''colors'',
          md_oracle_text = spec_field kv ''oracle_text'',
          md_keywords = spec_field kv ''keywords'',
          md_legality = spec_subfield kv ''legalities'' ''commander'',
          md_rulings = None\<rparr>),
       next_addr := Suc (next_addr s),
       card_cache := (card_cache s)(name \<mapsto> next_addr s)\<rparr>)"
    using assms(1,2)
    by (simp add: fetch_card_data_def send_def build_metadata_dict [OF assms(3,4)])
  then show ?thesis
    by (simp add: spec_field_def spec_subfield_def)
qed

text \<open>
  C7 does not hold for every payload of a successful answer: where \<^verbatim>\<open>image_uris\<close> is
  present and \<^verbatim>\<open>null\<close>, \<^verbatim>\<open>data.get("image_uris", {})\<close> is \<^verbatim>\<open>None\<close> and the next
  \<^verbatim>\<open>.get\<close> raises.
\<close>

theorem fetch_card_data_extracts_counterexample:
  "http_get demo (requests (init 100)) (NamedLookup ''Odd'') =
     Some (Response 200 (Some (JObj [(''name'', JStr ''Odd''), (''image_uris'', JNull)]))) \<and>
   fst (fetch_card_data demo ''Odd'' (init 100)) = Inl AttributeError"
  by code_simp

theorem fetch_card_data_extracts_witness:
  "card_cache (init 100) ''Island'' = None \<and>
   http_get demo (requests (init 100)) (NamedLookup ''Island'') =
     Some (Response 200 (Some (JObj [(''name'', JStr ''Island''), (''id'', JStr ''island-id'')]))) \<and>
   dict_or_absent [(''name'', JStr ''Island''), (''id'', JStr ''island-id'')] ''image_uris'' \<and>
   dict_or_absent [(''name'', JStr ''Island''), (''id'', JStr ''island-id'')] ''legalities'' \<and>
   fst (fetch_card_data demo ''Island'' (init 100)) = Inr 0 \<and>
   heap (snd (fetch_card_data demo ''Island'' (init 100))) 0 =
     \<lparr>md_name = JStr ''Island'', md_id = JStr ''island-id'',
      md_image_url = \<lparr>normal = JNull, border_crop = JNull, small = JNull\<rparr>,
      md_mana_cost = JNull, md_cmc = JNull, md_type = JNull, md_colors = JNull,
      md_oracle_text = JNull, md_keywords = JNull, md_legality = JNull,
      md_rulings = None\<rparr>"
proof -
  have h1: "card_cache (init 100) ''Island'' = None" by (simp add: init_def)
  have h2: "http_get demo (requests (init 100)) (NamedLookup ''Island'') =
     Some (Response 200 (Some (JObj [(''name'', JStr ''Island''), (''id'', JStr ''island-id'')])))"
    by (simp add: demo_def demo_http_def)
  have h3: "dict_or_absent [(''name'', JStr ''Island''), (''id'', JStr ''island-id'')] ''image_uris''"
    and h4: "dict_or_absent [(''name'', JStr ''Island''), (''id'', JStr ''island-id'')] ''legalities''"
    by (simp_all add: dict_or_absent_def)
  have n: "next_addr (init 100) = 0" by (simp add: init_def)
  from fetch_card_data_extracts [OF h1 h2 h3 h4] h1 h2 h3 h4
  show ?thesis by (simp add: n spec_field_def spec_subfield_def)
qed

section \<open>The caches over a sequence of calls\<close>

lemma same_fields_refl [simp]: "same_fields m m"
  by (simp add: same_fields_def)

lemma same_fields_trans: "same_fields a b \<Longrightarrow> same_fields b c \<Longrightarrow> same_fields a c"
  by (simp add: same_fields_def)

lemma same_fields_rulings [simp]: "same_fields (m\<lparr>md_rulings := x\<rparr>) m"
  by (simp add: same_fields_def)

lemma extends_refl: "extends s s"
  by (simp add: extends_def)

lemma extends_trans: "extends s s1 \<Longrightarrow> extends s1 s2 \<Longrightarrow> extends s s2"
  unfolding extends_def
  by (meson le_trans less_le_trans same_fields_trans)

lemma fetch_card_data_extends:
  assumes "allocated s" and "fetch_card_data ev name s = (r, s1)"
  shows "allocated s1 \<and> extends s s1"
  using assms
  by (auto simp: fetch_card_data_def send_def allocated_def extends_def less_Suc_eq
      split: option.splits sum.splits if_splits)

lemma fetch_rulings_extends:
  assumes "allocated s" and "fetch_rulings ev card_id s = (r, s1)"
  shows "allocated s1 \<and> extends s s1"
  using assms
  by (auto simp: fetch_rulings_def send_def allocated_def extends_def
      split: option.splits sum.splits if_splits)

lemma fetch_full_card_extends:
  assumes "allocated s" and "fetch_full_card ev name s = (r, s3)"
  shows "allocated s3 \<and> extends s s3"
proof -
  obtain r1 s1 where c: "fetch_card_data ev name s = (r1, s1)"
    by (cases "fetch_card_data ev name s")
  note e1 = fetch_card_data_extends [OF assms(1) c]
  show ?thesis
  proof (cases r1)
    case (Inl e)
    then show ?thesis using assms(2) c e1 by (simp add: fetch_full_card_def)
  next
    case (Inr a)
    obtain r2 s2 where f: "fetch_rulings ev (md_id (heap s1 a)) s1 = (r2, s2)"
      by (cases "fetch_rulings ev (md_id (heap s1 a)) s1")
    from e1 have a1: "allocated s1" by simp
    note e2 = fetch_rulings_extends [OF a1 f]
    show ?thesis
    proof (cases r2)
      case (Inl e)
      then have "s3 = s2" using assms(2) c f Inr by (simp add: fetch_full_card_def)
      then show ?thesis using e1 e2 extends_trans by blast
    next
      case (Inr l)
      then have s3: "s3 = s2\<lparr>heap := (heap s2)(a := (heap s2 a)\<lparr>md_rulings := Some l\<rparr>)\<rparr>"
        using assms(2) c f \<open>r1 = Inr a\<close> by (simp add: fetch_full_card_def)
      have "allocated s3" using e2 by (simp add: s3 allocated_def)
      moreover have "extends s2 s3"
        by (simp add: s3 extends_def)
      ultimately show ?thesis using e1 e2 extends_trans by blast
    qed
  qed
qed

lemma perform_extends: "allocated s \<Longrightarrow> allocated (perform ev op s) \<and> extends s (perform ev op s)"
proof (cases op)
  case (FetchCard name)
  assume "allocated s"
  from fetch_card_data_extends [OF this, of ev name "fst (fetch_card_data ev name s)" "snd (fetch_card_data ev name s)"]
  show ?thesis by (simp add: FetchCard)
next
  case (FetchRulings card_id)
  assume "allocated s"
  from fetch_rulings_extends [OF this, of ev card_id "fst (fetch_rulings ev card_id s)" "snd (fetch_rulings ev card_id s)"]
  show ?thesis by (simp add: FetchRulings)
next
  case (FetchFull name)
  assume "allocated s"
  from fetch_full_card_extends [OF this, of ev name "fst (fetch_full_card ev name s)" "snd (fetch_full_card ev name s)"]
  show ?thesis by (simp add: FetchFull)
qed

lemma perform_all_extends:
  "allocated s \<Longrightarrow> allocated (perform_all ev ops s) \<and> extends s (perform_all ev ops s)"
proof (induction ops arbitrary: s)
  case Nil
  then show ?case by (simp add: extends_refl)
next
  case (Cons op ops)
  from perform_extends [OF Cons.prems, of ev op]
  have a: "allocated (perform ev op s)" and e: "extends s (perform ev op s)" by simp_all
  from Cons.IH [OF a] e show ?case
    using extends_trans by auto
qed

lemma fetch_card_data_other_keys:
  "fetch_card_data ev name s = (r, s1) \<Longrightarrow> k \<noteq> name \<Longrightarrow> card_cache s1 k = card_cache s k"
  by (auto simp: fetch_card_data_def send_def split: option.splits sum.splits if_splits)

lemma fetch_rulings_card_cache:
  "fetch_rulings ev card_id s = (r, s1) \<Longrightarrow> card_cache s1 = card_cache s \<and> heap s1 = heap s"
  by (auto simp: fetch_rulings_def send_def split: option.splits sum.splits if_splits)

lemma fetch_full_card_result:
  assumes "fetch_full_card ev name s = (Inr a, s3)"
  shows "card_cache s3 name = Some a \<and> md_rulings (heap s3 a) \<noteq> None"
proof -
  obtain r1 s1 where c: "fetch_card_data ev name s = (r1, s1)"
    by (cases "fetch_card_data ev name s")
  obtain r2 s2 where f: "fetch_rulings ev (md_id (heap s1 a)) s1 = (r2, s2)"
    by (cases "fetch_rulings ev (md_id (heap s1 a)) s1")
  from assms c have r1: "r1 = Inr a"
    by (cases r1) (auto simp: fetch_full_card_def split: prod.splits sum.splits)
  from assms c f r1 obtain l where r2: "r2 = Inr l"
    and s3: "s3 = s2\<lparr>heap := (heap s2)(a := (heap s2 a)\<lparr>md_rulings := Some l\<rparr>)\<rparr>"
    by (cases r2) (auto simp: fetch_full_card_def)
  have "card_cache s1 name = Some a"
    using c r1 by (simp add: fetch_card_data_stores)
  then have "card_cache s2 name = Some a"
    using fetch_rulings_card_cache [OF f] by simp
  then show ?thesis by (simp add: s3)
qed

text \<open>
  C8, amended. Over any sequence of calls of \<^verbatim>\<open>fetch_card_data\<close>, \<^verbatim>\<open>fetch_rulings\<close>
  and \<^verbatim>\<open>fetch_full_card\<close> that run one after another: a name in the name cache stays
  bound to the same record, and the fields \<^verbatim>\<open>fetch_card_data\<close> filled never change;
  an id in the rulings cache stays bound to the same list. A successful
  \<^verbatim>\<open>fetch_card_data\<close> leaves its record in the name cache under the name it was
  called with and writes no other key. A successful \<^verbatim>\<open>fetch_full_card\<close> leaves in the
  name cache the record it returns, which then has its rulings.
\<close>

theorem cache_entries_kept:
  assumes "allocated s"
  shows "allocated (perform_all ev ops s) \<and>
    (\<forall>k a. card_cache s k = Some a \<longrightarrow>
       card_cache (perform_all ev ops s) k = Some a \<and>
       same_fields (heap (perform_all ev ops s) a) (heap s a)) \<and>
    (\<forall>k l. rulings_cache s k = Some l \<longrightarrow> rulings_cache (perform_all ev ops s) k = Some l) \<and>
    (\<forall>name a. fst (fetch_card_data ev name s) = Inr a \<longrightarrow>
       card_cache (snd (fetch_card_data ev name s)) name = Some a \<and>
       (\<forall>k. k \<noteq> name \<longrightarrow> card_cache (snd (fetch_card_data ev name s)) k = card_cache s k)) \<and>
    (\<forall>name a. fst (fetch_full_card ev name s) = Inr a \<longrightarrow>
       card_cache (snd (fetch_full_card ev name s)) name = Some a \<and>
       md_rulings (heap (snd (fetch_full_card ev name s)) a) \<noteq> None)"
proof (intro conjI allI impI)
  note e = perform_all_extends [OF assms, of ev ops]
  show "allocated (perform_all ev ops s)" using e by simp
  show "card_cache (perform_all ev ops s) k = Some a" if "card_cache s k = Some a" for k a
    using e that by (simp add: extends_def)
  show "same_fields (heap (perform_all ev ops s) a) (heap s a)" if "card_cache s k = Some a" for k a
  proof -
    from that assms have "a < next_addr s" by (auto simp: allocated_def)
    then show ?thesis using e by (simp add: extends_def)
  qed
  show "rulings_cache (perform_all ev ops s) k = Some l" if "rulings_cache s k = Some l" for k l
    using e that by (simp add: extends_def)
  show "card_cache (snd (fetch_card_data ev name s)) name = Some a"
    if "fst (fetch_card_data ev name s) = Inr a" for name a
    using that fetch_card_data_stores [of ev name s a "snd (fetch_card_data ev name s)"]
    by (simp add: prod_eq_iff)
  show "card_cache (snd (fetch_card_data ev name s)) k = card_cache s k"
    if "k \<noteq> name" for name k
    using that fetch_card_data_other_keys [of ev name s "fst (fetch_card_data ev name s)"
        "snd (fetch_card_data ev name s)" k]
    by simp
  show "card_cache (snd (fetch_full_card ev name s)) name = Some a"
    and "md_rulings (heap (snd (fetch_full_card ev name s)) a) \<noteq> None"
    if "fst (fetch_full_card ev name s) = Inr a" for name a
    using that fetch_full_card_result [of ev name s a "snd (fetch_full_card ev name s)"]
    by (simp_all add: prod_eq_iff)
qed

text \<open>
  C8 does not hold as stated: the value of a populated key is updated, and the name cache
  does not hold the record without rulings. After \<^verbatim>\<open>fetch_card_data\<close> the cached record
  has no rulings; \<^verbatim>\<open>fetch_full_card\<close> then writes them into this very record.
\<close>

theorem cache_entries_kept_counterexample:
  "card_cache (snd (fetch_card_data demo ''Lightning Bolt'' (init 100))) ''Lightning Bolt'' = Some 0 \<and>
   md_rulings (heap (snd (fetch_card_data demo ''Lightning Bolt'' (init 100))) 0) = None \<and>
   card_cache (snd (fetch_full_card demo ''Lightning Bolt''
       (snd (fetch_card_data demo ''Lightning Bolt'' (init 100))))) ''Lightning Bolt'' = Some 0 \<and>
   md_rulings (heap (snd (fetch_full_card demo ''Lightning Bolt''
       (snd (fetch_card_data demo ''Lightning Bolt'' (init 100))))) 0) =
     Some [''[2020-01-01] First.'', ''[2021-02-03] Second.'']"
  by code_simp

lemma allocated_init: "allocated (init ms)"
  by (simp add: allocated_def init_def)

lemma allocated_demo_bolt: "allocated (snd (fetch_full_card demo ''Lightning Bolt'' (init 100)))"
  using fetch_full_card_extends [OF allocated_init, of demo "''Lightning Bolt''" 100
      "fst (fetch_full_card demo ''Lightning Bolt'' (init 100))"
      "snd (fetch_full_card demo ''Lightning Bolt'' (init 100))"]
  by simp

lemma demo_bolt_cached:
  "card_cache (snd (fetch_full_card demo ''Lightning Bolt'' (init 100))) ''Lightning Bolt'' = Some 0"
  by code_simp

lemma demo_bolt_rulings_cached:
  "rulings_cache (snd (fetch_full_card demo ''Lightning Bolt'' (init 100))) (JStr ''bolt-id'') =
     Some [''[2020-01-01] First.'', ''[2021-02-03] Second.'']"
  by code_simp

lemma demo_island_after_bolt:
  "fst (fetch_card_data demo ''Island'' (snd (fetch_full_card demo ''Lightning Bolt'' (init 100)))) = Inr 1"
  "fst (fetch_full_card demo ''Island'' (snd (fetch_full_card demo ''Lightning Bolt'' (init 100)))) = Inr 1"
  by code_simp+

theorem cache_entries_kept_witness:
  "allocated (snd (fetch_full_card demo ''Lightning Bolt'' (init 100))) \<and>
   allocated (perform_all demo
     [FetchCard ''Island'', FetchFull ''Lightning Bolt'', FetchRulings (JStr ''island-id'')]
     (snd (fetch_full_card demo ''Lightning Bolt'' (init 100)))) \<and>
   card_cache (snd (fetch_full_card demo ''Lightning Bolt'' (init 100))) ''Lightning Bolt'' = Some 0 \<and>
   card_cache (perform_all demo
     [FetchCard ''Island'', FetchFull ''Lightning Bolt'', FetchRulings (JStr ''island-id'')]
     (snd (fetch_full_card demo ''Lightning Bolt'' (init 100)))) ''Lightning Bolt'' = Some 0 \<and>
   same_fields
     (heap (perform_all demo
       [FetchCard ''Island'', FetchFull ''Lightning Bolt'', FetchRulings (JStr ''island-id'')]
       (snd (fetch_full_card demo ''Lightning Bolt'' (init 100)))) 0)
     (heap (snd (fetch_full_card demo ''Lightning Bolt'' (init 100))) 0) \<and>
   rulings_cache (snd (fetch_full_card demo ''Lightning Bolt'' (init 100))) (JStr ''bolt-id'') =
     Some [''[2020-01-01] First.'', ''[2021-02-03] Second.''] \<and>
   rulings_cache (perform_all demo
     [FetchCard ''Island'', FetchFull ''Lightning Bolt'', FetchRulings (JStr ''island-id'')]
     (snd (fetch_full_card demo ''Lightning Bolt'' (init 100)))) (JStr ''bolt-id'') =
     Some [''[2020-01-01] First.'', ''[2021-02-03] Second.''] \<and>
   fst (fetch_card_data demo ''Island''
     (snd (fetch_full_card demo ''Lightning Bolt'' (init 100)))) = Inr 1 \<and>
   card_cache (snd (fetch_card_data demo ''Island''
     (snd (fetch_full_card demo ''Lightning Bolt'' (init 100))))) ''Island'' = Some 1 \<and>
   card_cache (snd (fetch_card_data demo ''Island''
     (snd (fetch_full_card demo ''Lightning Bolt'' (init 100))))) ''Lightning Bolt'' =
     card_cache (snd (fetch_full_card demo ''Lightning Bolt'' (init 100))) ''Lightning Bolt'' \<and>
   fst (fetch_full_card demo ''Island''
     (snd (fetch_full_card demo ''Lightning Bolt'' (init 100)))) = Inr 1 \<and>
   card_cache (snd (fetch_full_card demo ''Island''
     (snd (fetch_full_card demo ''Lightning Bolt'' (init 100))))) ''Island'' = Some 1 \<and>
   md_rulings (heap (snd (fetch_full_card demo ''Island''
     (snd (fetch_full_card demo ''Lightning Bolt'' (init 100))))) 1) \<noteq> None"
proof -
  have ne: "''Lightning Bolt'' \<noteq> ''Island''" by simp
  note t = cache_entries_kept [OF allocated_demo_bolt, of demo
      "[FetchCard ''Island'', FetchFull ''Lightning Bolt'', FetchRulings (JStr ''island-id'')]"]
  note t1 = conjunct1 [OF t]
  note t2 = mp [OF spec [OF spec [OF conjunct1 [OF conjunct2 [OF t]]]] demo_bolt_cached]
  note t3 = mp [OF spec [OF spec [OF conjunct1 [OF conjunct2 [OF conjunct2 [OF t]]]]]
      demo_bolt_rulings_cached]
  note t4 = mp [OF spec [OF spec [OF conjunct1 [OF conjunct2 [OF conjunct2 [OF conjunct2 [OF t]]]]]]
      demo_island_after_bolt(1)]
  note t4b = mp [OF spec [OF conjunct2 [OF t4]] ne]
  note t5 = mp [OF spec [OF spec [OF conjunct2 [OF conjunct2 [OF conjunct2 [OF conjunct2 [OF t]]]]]]
      demo_island_after_bolt(2)]
  show ?thesis
    by (intro conjI)
      (rule allocated_demo_bolt t1 demo_bolt_cached conjunct1 [OF t2] conjunct2 [OF t2]
        demo_bolt_rulings_cached t3 demo_island_after_bolt conjunct1 [OF t4] t4b
        conjunct1 [OF t5] conjunct2 [OF t5])+
qed

section \<open>Collecting the results of a batch\<close>

lemma map_insort_key: "map f (insort_key f x xs) = insort (f x) (map f xs)"
  by (induction xs) simp_all

lemma map_sort_key: "map f (sort_key f xs) = sort (map f xs)"
  by (induction xs) (simp_all add: map_insort_key)

lemma first_error_None: "first_error xs = None \<Longrightarrow> map Inr (results_of xs) = xs"
  by (induction xs rule: first_error.induct) simp_all

lemma first_error_None_iff: "first_error xs = None \<longleftrightarrow> (\<forall>x\<in>set xs. \<exists>v. x = Inr v)"
  by (induction xs rule: first_error.induct) auto

lemma first_error_Some_mem: "first_error xs = Some e \<Longrightarrow> Inl e \<in> set xs"
  by (induction xs rule: first_error.induct) auto

lemma progress_loop_eq:
  "progress_loop xs data pbar =
     (case first_error xs of
        Some e \<Rightarrow> Inl e
      | None \<Rightarrow> Inr (data @ results_of xs, pbar + length xs))"
  by (induction xs data pbar rule: progress_loop.induct) (simp_all split: option.splits)

lemma run_tasks_Cons:
  "run_tasks ev cards (i # rest) s =
     ((i, fst (fetch_full_card ev (cards ! i) s)) #
        fst (run_tasks ev cards rest (snd (fetch_full_card ev (cards ! i) s))),
      snd (run_tasks ev cards rest (snd (fetch_full_card ev (cards ! i) s))))"
  by (simp split: prod.splits)

lemma run_tasks_indices: "map fst (fst (run_tasks ev cards sched s)) = sched"
  by (induction sched arbitrary: s) (simp_all add: run_tasks_Cons del: run_tasks.simps(2))

lemma batch_gather:
  "fst (batch_fetch_card_data ev cards False sched s) = gather (fst (run_tasks ev cards sched s))"
  by (cases "run_tasks ev cards sched s") (simp add: batch_fetch_card_data_def)

lemma batch_progress:
  "fst (batch_fetch_card_data ev cards True sched s) =
     (case first_error (map snd (fst (run_tasks ev cards sched s))) of
        Some e \<Rightarrow> Inl e
      | None \<Rightarrow> Inr (results_of (map snd (fst (run_tasks ev cards sched s)))))"
  by (cases "run_tasks ev cards sched s")
    (simp add: batch_fetch_card_data_def progress_loop_eq split: option.splits)

lemma run_tasks_outcome:
  "(i, r) \<in> set (fst (run_tasks ev cards sched s)) \<Longrightarrow>
   \<exists>s'. r = fst (fetch_full_card ev (cards ! i) s')"
proof (induction sched arbitrary: s)
  case Nil
  then show ?case by simp
next
  case (Cons j rest)
  from Cons.prems show ?case
    by (auto simp: run_tasks_Cons simp del: run_tasks.simps(2) dest: Cons.IH)
qed

lemma sched_length: "sort sched = [0..<n] \<Longrightarrow> length sched = n"
  by (metis length_sort length_upt minus_nat.diff_0)

lemma gather_Inr:
  assumes "gather finished = Inr rs" and "sort (map fst finished) = [0..<n]"
  shows "length rs = n \<and> (\<forall>i<n. (i, Inr (rs ! i)) \<in> set finished)"
proof -
  let ?ys = "sort_key fst finished"
  from assms(1) have ne: "first_error (map snd finished) = None"
    and rs: "rs = results_of (map snd ?ys)"
    by (auto simp: gather_def split: option.splits)
  have "\<forall>x\<in>set (map snd ?ys). \<exists>v. x = Inr v"
    using ne by (simp add: first_error_None_iff)
  then have "first_error (map snd ?ys) = None"
    by (simp only: first_error_None_iff)
  then have m: "map Inr rs = map snd ?ys"
    unfolding rs by (rule first_error_None)
  have f: "map fst ?ys = [0..<n]"
    using assms(2) by (simp add: map_sort_key)
  have len: "length rs = n"
    using arg_cong [OF m, of length] arg_cong [OF f, of length] by simp
  have "(i, Inr (rs ! i)) \<in> set finished" if "i < n" for i
  proof -
    have li: "i < length ?ys" using that arg_cong [OF f, of length] by simp
    have "fst (?ys ! i) = i"
      using arg_cong [OF f, of "\<lambda>l. l ! i"] li that by simp
    moreover have "snd (?ys ! i) = Inr (rs ! i)"
      using arg_cong [OF m, of "\<lambda>l. l ! i"] li len that by simp
    ultimately have "?ys ! i = (i, Inr (rs ! i))"
      by (simp add: prod_eq_iff)
    moreover have "?ys ! i \<in> set ?ys" using li by (rule nth_mem)
    ultimately show ?thesis by simp
  qed
  with len show ?thesis by simp
qed

lemma batch_state:
  "snd (batch_fetch_card_data ev cards progress sched s) = snd (run_tasks ev cards sched s)"
  by (cases "run_tasks ev cards sched s") (simp add: batch_fetch_card_data_def)

lemma run_tasks_extends:
  "allocated s \<Longrightarrow>
   allocated (snd (run_tasks ev cards sched s)) \<and> extends s (snd (run_tasks ev cards sched s))"
proof (induction sched arbitrary: s)
  case Nil
  then show ?case by (simp add: extends_refl)
next
  case (Cons j rest)
  let ?s1 = "snd (fetch_full_card ev (cards ! j) s)"
  from fetch_full_card_extends [OF Cons.prems, of ev "cards ! j"
      "fst (fetch_full_card ev (cards ! j) s)" ?s1]
  have a: "allocated ?s1" and e: "extends s ?s1" by simp_all
  from Cons.IH [OF a] e show ?case
    by (auto simp: run_tasks_Cons simp del: run_tasks.simps(2) intro: extends_trans)
qed

lemma run_tasks_bound:
  "allocated s \<Longrightarrow> (i, Inr a) \<in> set (fst (run_tasks ev cards sched s)) \<Longrightarrow>
   card_cache (snd (run_tasks ev cards sched s)) (cards ! i) = Some a"
proof (induction sched arbitrary: s)
  case Nil
  then show ?case by simp
next
  case (Cons j rest)
  let ?s1 = "snd (fetch_full_card ev (cards ! j) s)"
  from fetch_full_card_extends [OF Cons.prems(1), of ev "cards ! j"
      "fst (fetch_full_card ev (cards ! j) s)" ?s1]
  have a: "allocated ?s1" by simp
  from Cons.prems(2)
  have "(i, Inr a) = (j, fst (fetch_full_card ev (cards ! j) s)) \<or>
        (i, Inr a) \<in> set (fst (run_tasks ev cards rest ?s1))"
    by (simp add: run_tasks_Cons del: run_tasks.simps(2))
  then show ?case
  proof
    assume h: "(i, Inr a) = (j, fst (fetch_full_card ev (cards ! j) s))"
    then have "fetch_full_card ev (cards ! i) s = (Inr a, snd (fetch_full_card ev (cards ! i) s))"
      by (simp add: prod_eq_iff)
    from fetch_full_card_result [OF this] h have "card_cache ?s1 (cards ! i) = Some a"
      by simp
    moreover have "extends ?s1 (snd (run_tasks ev cards rest ?s1))"
      using run_tasks_extends [OF a] by simp
    ultimately show ?thesis
      by (simp add: run_tasks_Cons extends_def del: run_tasks.simps(2))
  next
    assume "(i, Inr a) \<in> set (fst (run_tasks ev cards rest ?s1))"
    from Cons.IH [OF a this] show ?thesis
      by (simp add: run_tasks_Cons del: run_tasks.simps(2))
  qed
qed

lemma fetch_card_data_new:
  assumes "card_cache s name = None" and "fetch_card_data ev name s = (Inr a, s1)"
  shows "\<exists>rsp data md.
           http_get ev (requests s) (NamedLookup name) = Some rsp \<and> status_code rsp = 200 \<and>
           json_body rsp = Some data \<and> build_metadata data = Inr md \<and>
           a = next_addr s \<and> heap s1 = (heap s)(a := md) \<and>
           card_cache s1 = (card_cache s)(name \<mapsto> a)"
  using assms
  by (auto simp: fetch_card_data_def send_def split: option.splits sum.splits if_splits)

lemma fetch_card_data_same:
  assumes "fetch_card_data ev name s = (r, s1)"
    and "card_cache s name \<noteq> None \<or> (\<exists>e. r = Inl e)"
  shows "card_cache s1 = card_cache s \<and> heap s1 = heap s"
  using assms
  by (auto simp: fetch_card_data_def send_def split: option.splits sum.splits if_splits)

lemma fetch_card_data_coherent:
  assumes "stable ev" and "allocated s" and "coherent ev s"
    and "fetch_card_data ev name s = (r, s1)"
  shows "coherent ev s1"
proof (cases "card_cache s name = None \<and> (\<exists>a. r = Inr a)")
  case False
  then have "card_cache s name \<noteq> None \<or> (\<exists>e. r = Inl e)"
    by (cases r) auto
  from fetch_card_data_same [OF assms(4) this] assms(3) show ?thesis
    by (simp add: coherent_def)
next
  case True
  then obtain a where miss: "card_cache s name = None" and r: "r = Inr a" by auto
  from fetch_card_data_new [OF miss assms(4) [unfolded r]]
  obtain rsp data md where h: "http_get ev (requests s) (NamedLookup name) = Some rsp"
    and st: "status_code rsp = 200" and jb: "json_body rsp = Some data"
    and bm: "build_metadata data = Inr md" and a: "a = next_addr s"
    and hp: "heap s1 = (heap s)(a := md)"
    and cc: "card_cache s1 = (card_cache s)(name \<mapsto> a)"
    by blast
  have "http_get ev [] (NamedLookup name) = Some rsp"
    using assms(1) h unfolding stable_def by metis
  then have am: "answer_metadata ev name = Some md"
    by (simp add: answer_metadata_def st jb bm)
  show ?thesis
    unfolding coherent_def
  proof (intro allI impI)
    fix k b
    assume kb: "card_cache s1 k = Some b"
    show "\<exists>m. answer_metadata ev k = Some m \<and> same_fields (heap s1 b) m"
    proof (cases "k = name")
      case True
      then have "b = a" using kb cc by simp
      then show ?thesis using True am hp by simp
    next
      case False
      then have old: "card_cache s k = Some b" using kb cc by simp
      then have "b < next_addr s" using assms(2) by (auto simp: allocated_def)
      then have "heap s1 b = heap s b" using hp a by simp
      with old assms(3) show ?thesis by (simp add: coherent_def)
    qed
  qed
qed

lemma fetch_rulings_coherent:
  "coherent ev s \<Longrightarrow> fetch_rulings ev card_id s = (r, s1) \<Longrightarrow> coherent ev s1"
  using fetch_rulings_card_cache [of ev card_id s r s1] by (simp add: coherent_def)

lemma fetch_full_card_coherent:
  assumes "stable ev" and "allocated s" and "coherent ev s"
  shows "coherent ev (snd (fetch_full_card ev name s))"
proof -
  obtain r1 s1 where c: "fetch_card_data ev name s = (r1, s1)"
    by (cases "fetch_card_data ev name s")
  note c1 = fetch_card_data_coherent [OF assms c]
  show ?thesis
  proof (cases r1)
    case (Inl e)
    then show ?thesis using c c1 by (simp add: fetch_full_card_def)
  next
    case (Inr a)
    obtain r2 s2 where f: "fetch_rulings ev (md_id (heap s1 a)) s1 = (r2, s2)"
      by (cases "fetch_rulings ev (md_id (heap s1 a)) s1")
    note c2 = fetch_rulings_coherent [OF c1 f]
    show ?thesis
    proof (cases r2)
      case (Inl e)
      then show ?thesis using c f Inr c2 by (simp add: fetch_full_card_def)
    next
      case (Inr l)
      have "coherent ev (s2\<lparr>heap := (heap s2)(a := (heap s2 a)\<lparr>md_rulings := Some l\<rparr>)\<rparr>)"
        using c2 by (auto simp: coherent_def same_fields_def)
      then show ?thesis using c f \<open>r1 = Inr a\<close> Inr by (simp add: fetch_full_card_def)
    qed
  qed
qed

lemma run_tasks_coherent:
  "stable ev \<Longrightarrow> allocated s \<Longrightarrow> coherent ev s \<Longrightarrow>
   coherent ev (snd (run_tasks ev cards sched s))"
proof (induction sched arbitrary: s)
  case Nil
  then show ?case by simp
next
  case (Cons j rest)
  let ?s1 = "snd (fetch_full_card ev (cards ! j) s)"
  from fetch_full_card_extends [OF Cons.prems(2), of ev "cards ! j"
      "fst (fetch_full_card ev (cards ! j) s)" ?s1]
  have a: "allocated ?s1" by simp
  have c: "coherent ev ?s1" using Cons.prems by (rule fetch_full_card_coherent)
  from Cons.IH [OF Cons.prems(1) a c] show ?case
    by (simp add: run_tasks_Cons del: run_tasks.simps(2))
qed

text \<open>
  C2, amended. Without the progress bar, whatever the order \<open>sched\<close> in which the tasks
  complete: when no task fails, \<^verbatim>\<open>batch_fetch_card_data\<close> returns a list, and when a
  task fails it raises and returns none. A list it returns has one entry per name, and
  the entry at position \<open>i\<close> is the result of the task created for the name at position
  \<open>i\<close>: for a list without repeated names it is the record the name cache holds under
  that name after the batch, and with a stable upstream and a coherent name cache its
  fields are those the upstream gives for that name.
\<close>

theorem gather_keeps_input_order:
  assumes "sort sched = [0..<length cards]" and "allocated s"
  shows
   "(first_error (map snd (fst (run_tasks ev cards sched s))) = None \<longrightarrow>
       (\<exists>rs. fst (batch_fetch_card_data ev cards False sched s) = Inr rs)) \<and>
    (\<forall>e. first_error (map snd (fst (run_tasks ev cards sched s))) = Some e \<longrightarrow>
       fst (batch_fetch_card_data ev cards False sched s) = Inl e) \<and>
    (\<forall>rs. fst (batch_fetch_card_data ev cards False sched s) = Inr rs \<longrightarrow>
       length rs = length cards \<and>
       (\<forall>i<length cards.
          (i, Inr (rs ! i)) \<in> set (fst (run_tasks ev cards sched s)) \<and>
          (distinct cards \<longrightarrow>
             card_cache (snd (batch_fetch_card_data ev cards False sched s)) (cards ! i) =
               Some (rs ! i)) \<and>
          (stable ev \<and> coherent ev s \<longrightarrow>
             (\<exists>m. answer_metadata ev (cards ! i) = Some m \<and>
                same_fields (heap (snd (batch_fetch_card_data ev cards False sched s)) (rs ! i))
                  m))))"
proof (intro conjI allI impI)
  assume "first_error (map snd (fst (run_tasks ev cards sched s))) = None"
  then show "\<exists>rs. fst (batch_fetch_card_data ev cards False sched s) = Inr rs"
    by (simp add: batch_gather gather_def)
next
  fix e
  assume "first_error (map snd (fst (run_tasks ev cards sched s))) = Some e"
  then show "fst (batch_fetch_card_data ev cards False sched s) = Inl e"
    by (simp add: batch_gather gather_def)
next
  fix rs
  assume "fst (batch_fetch_card_data ev cards False sched s) = Inr rs"
  then have g: "gather (fst (run_tasks ev cards sched s)) = Inr rs"
    by (simp add: batch_gather)
  have "sort (map fst (fst (run_tasks ev cards sched s))) = [0..<length cards]"
    using assms(1) by (simp add: run_tasks_indices)
  note r = gather_Inr [OF g this]
  from r show "length rs = length cards" by simp
  fix i assume "i < length cards"
  with r have m: "(i, Inr (rs ! i)) \<in> set (fst (run_tasks ev cards sched s))" by simp
  then show "(i, Inr (rs ! i)) \<in> set (fst (run_tasks ev cards sched s))" .
  note b = run_tasks_bound [OF assms(2) m]
  show "card_cache (snd (batch_fetch_card_data ev cards False sched s)) (cards ! i) = Some (rs ! i)"
    using b by (simp add: batch_state)
  show "\<exists>m. answer_metadata ev (cards ! i) = Some m \<and>
      same_fields (heap (snd (batch_fetch_card_data ev cards False sched s)) (rs ! i)) m"
    if "stable ev \<and> coherent ev s"
  proof -
    from that have "coherent ev (snd (run_tasks ev cards sched s))"
      using run_tasks_coherent [of ev s cards sched] assms(2) by simp
    with b show ?thesis by (simp add: coherent_def batch_state)
  qed
qed

lemma demo_batch_10:
  "fst (batch_fetch_card_data demo [''Lightning Bolt'', ''Island''] False [1, 0] (init 100)) = Inr [1, 0]"
  by code_simp

lemma demo_batch_01:
  "fst (batch_fetch_card_data demo [''Lightning Bolt'', ''Island''] False [0, 1] (init 100)) = Inr [0, 1]"
  by code_simp

lemma sched_10: "sort [1, 0] = [0..<length [''Lightning Bolt'', ''Island'']]"
  by code_simp

lemma sched_01: "sort [0, 1] = [0..<length [''Lightning Bolt'', ''Island'']]"
  by code_simp

lemma stable_demo: "stable demo"
  by (simp add: stable_def demo_def demo_http_def)

lemma coherent_init: "coherent ev (init ms)"
  by (simp add: coherent_def init_def)

lemma demo_batch_ghost:
  "first_error (map snd (fst (run_tasks demo [''Ghost'', ''Island''] [1, 0] (init 100)))) =
     Some (card_id_not_found ''ghost-id'')"
  by code_simp

lemma sched_ghost: "sort [1, 0] = [0..<length [''Ghost'', ''Island'']]"
  by code_simp

text \<open>
  C2 does not hold for every list of names: with a name whose rulings lookup fails there
  is no list of results at all, in whatever order the tasks complete.
\<close>

theorem gather_keeps_input_order_counterexample:
  "fst (batch_fetch_card_data demo [''Ghost'', ''Island''] False [0, 1] (init 100)) =
     Inl (card_id_not_found ''ghost-id'')"
  by code_simp

theorem gather_keeps_input_order_witness:
  "sort [1, 0] = [0..<length [''Lightning Bolt'', ''Island'']] \<and>
   allocated (init 100) \<and> distinct [''Lightning Bolt'', ''Island''] \<and>
   stable demo \<and> coherent demo (init 100) \<and>
   fst (batch_fetch_card_data demo [''Lightning Bolt'', ''Island''] False [1, 0] (init 100)) =
     Inr [1, 0] \<and>
   card_cache (snd (batch_fetch_card_data demo [''Lightning Bolt'', ''Island''] False [1, 0]
       (init 100))) ''Lightning Bolt'' = Some 1 \<and>
   card_cache (snd (batch_fetch_card_data demo [''Lightning Bolt'', ''Island''] False [1, 0]
       (init 100))) ''Island'' = Some 0 \<and>
   (\<exists>m. answer_metadata demo ''Lightning Bolt'' = Some m \<and>
      same_fields (heap (snd (batch_fetch_card_data demo [''Lightning Bolt'', ''Island''] False
        [1, 0] (init 100))) 1) m) \<and>
   (\<exists>m. answer_metadata demo ''Island'' = Some m \<and>
      same_fields (heap (snd (batch_fetch_card_data demo [''Lightning Bolt'', ''Island''] False
        [1, 0] (init 100))) 0) m) \<and>
   sort [0, 1] = [0..<length [''Lightning Bolt'', ''Island'']] \<and>
   fst (batch_fetch_card_data demo [''Lightning Bolt'', ''Island''] False [0, 1] (init 100)) =
     Inr [0, 1] \<and>
   card_cache (snd (batch_fetch_card_data demo [''Lightning Bolt'', ''Island''] False [0, 1]
       (init 100))) ''Lightning Bolt'' = Some 0 \<and>
   sort [1, 0] = [0..<length [''Ghost'', ''Island'']] \<and>
   first_error (map snd (fst (run_tasks demo [''Ghost'', ''Island''] [1, 0] (init 100)))) =
     Some (card_id_not_found ''ghost-id'') \<and>
   fst (batch_fetch_card_data demo [''Ghost'', ''Island''] False [1, 0] (init 100)) =
     Inl (card_id_not_found ''ghost-id'')"
proof -
  have d: "distinct [''Lightning Bolt'', ''Island'']" by simp
  note t = gather_keeps_input_order [OF sched_10 allocated_init, of demo]
  note a = conjunct2 [OF mp [OF spec [OF conjunct2 [OF conjunct2 [OF t]]] demo_batch_10]]
  have a0: "card_cache (snd (batch_fetch_card_data demo [''Lightning Bolt'', ''Island''] False [1, 0]
       (init 100))) ''Lightning Bolt'' = Some 1 \<and>
     (\<exists>m. answer_metadata demo ''Lightning Bolt'' = Some m \<and>
      same_fields (heap (snd (batch_fetch_card_data demo [''Lightning Bolt'', ''Island''] False
        [1, 0] (init 100))) 1) m)"
    using spec [OF a, of 0] stable_demo coherent_init [of demo 100] by simp
  have a1: "card_cache (snd (batch_fetch_card_data demo [''Lightning Bolt'', ''Island''] False [1, 0]
       (init 100))) ''Island'' = Some 0 \<and>
     (\<exists>m. answer_metadata demo ''Island'' = Some m \<and>
      same_fields (heap (snd (batch_fetch_card_data demo [''Lightning Bolt'', ''Island''] False
        [1, 0] (init 100))) 0) m)"
    using spec [OF a, of 1] stable_demo coherent_init [of demo 100] by simp
  note u = gather_keeps_input_order [OF sched_01 allocated_init, of demo]
  note b = conjunct2 [OF mp [OF spec [OF conjunct2 [OF conjunct2 [OF u]]] demo_batch_01]]
  have b0: "card_cache (snd (batch_fetch_card_data demo [''Lightning Bolt'', ''Island''] False
       [0, 1] (init 100))) ''Lightning Bolt'' = Some 0"
    using spec [OF b, of 0] by simp
  note g = gather_keeps_input_order [OF sched_ghost allocated_init, of demo]
  note g1 = mp [OF spec [OF conjunct1 [OF conjunct2 [OF g]]] demo_batch_ghost]
  show ?thesis
    by (intro conjI)
      (rule sched_10 allocated_init d stable_demo coherent_init demo_batch_10
        conjunct1 [OF a0] conjunct1 [OF a1] conjunct2 [OF a0] conjunct2 [OF a1]
        sched_01 demo_batch_01 b0 sched_ghost demo_batch_ghost g1)+
qed

text \<open>
  C1 does not hold: with a name the upstream does not know, the batch call raises the
  \<^verbatim>\<open>CardFetchError\<close> of that task for the whole operation, on both paths, and returns no
  list.
\<close>

theorem batch_raises_first_failure_counterexample:
  "fst (batch_fetch_card_data demo [''Lightning Bolt'', ''UnknownCard123''] False [0, 1] (init 100)) =
     Inl (card_not_found ''UnknownCard123'') \<and>
   fst (batch_fetch_card_data demo [''Lightning Bolt'', ''UnknownCard123''] True [0, 1] (init 100)) =
     Inl (card_not_found ''UnknownCard123'')"
  by code_simp

text \<open>
  C1, amended. Every task runs to its end and has an outcome. When no task fails,
  \<^verbatim>\<open>batch_fetch_card_data\<close> returns a list with one record per name. When a task fails,
  the call raises the error of the first task that failed, in completion order, which is
  the error of \<^verbatim>\<open>fetch_full_card\<close> on one of the names; no list is returned.
\<close>

theorem batch_raises_first_failure:
  assumes "sort sched = [0..<length cards]"
  shows "map fst (fst (run_tasks ev cards sched s)) = sched \<and>
    (first_error (map snd (fst (run_tasks ev cards sched s))) = None \<longrightarrow>
       (\<exists>rs. fst (batch_fetch_card_data ev cards progress sched s) = Inr rs \<and>
          length rs = length cards)) \<and>
    (\<forall>e. first_error (map snd (fst (run_tasks ev cards sched s))) = Some e \<longrightarrow>
       fst (batch_fetch_card_data ev cards progress sched s) = Inl e \<and>
       (\<exists>i<length cards. \<exists>s'. fst (fetch_full_card ev (cards ! i) s') = Inl e))"
proof (intro conjI allI impI)
  let ?fin = "fst (run_tasks ev cards sched s)"
  show "map fst ?fin = sched" by (rule run_tasks_indices)
  have len: "length ?fin = length cards"
    using arg_cong [OF run_tasks_indices [of ev cards sched s], of length] sched_length [OF assms]
    by simp
  show "\<exists>rs. fst (batch_fetch_card_data ev cards progress sched s) = Inr rs \<and> length rs = length cards"
    if ne: "first_error (map snd ?fin) = None"
  proof (cases progress)
    case True
    have "length (results_of (map snd ?fin)) = length ?fin"
      using arg_cong [OF first_error_None [OF ne], of length] by simp
    then show ?thesis using True ne len by (simp add: batch_progress)
  next
    case False
    obtain rs where g: "gather ?fin = Inr rs" using ne by (simp add: gather_def)
    have "sort (map fst ?fin) = [0..<length cards]"
      using assms by (simp add: run_tasks_indices)
    from gather_Inr [OF g this] g False show ?thesis by (simp add: batch_gather)
  qed
  fix e
  assume fe: "first_error (map snd ?fin) = Some e"
  show "fst (batch_fetch_card_data ev cards progress sched s) = Inl e"
    using fe by (cases progress) (simp_all add: batch_progress batch_gather gather_def)
  from first_error_Some_mem [OF fe] obtain i where m: "(i, Inl e) \<in> set ?fin"
    by auto
  then have "i \<in> set (map fst ?fin)" by force
  then have "i \<in> set (sort sched)" by (simp add: run_tasks_indices)
  then have "i < length cards" by (simp add: assms del: set_sort)
  moreover from run_tasks_outcome [OF m]
  have "\<exists>s'. fst (fetch_full_card ev (cards ! i) s') = Inl e" by metis
  ultimately show "\<exists>i<length cards. \<exists>s'. fst (fetch_full_card ev (cards ! i) s') = Inl e"
    by blast
qed

lemma sched_unknown: "sort [1, 0] = [0..<length [''Lightning Bolt'', ''UnknownCard123'']]"
  by code_simp

lemma demo_batch_unknown:
  "first_error (map snd (fst (run_tasks demo [''Lightning Bolt'', ''UnknownCard123''] [1, 0]
      (init 100)))) = Some (card_not_found ''UnknownCard123'')"
  by code_simp

lemma demo_batch_known:
  "first_error (map snd (fst (run_tasks demo [''Lightning Bolt'', ''Island''] [1, 0]
      (init 100)))) = None"
  by code_simp

theorem batch_raises_first_failure_witness:
  "sort [1, 0] = [0..<length [''Lightning Bolt'', ''UnknownCard123'']] \<and>
   first_error (map snd (fst (run_tasks demo [''Lightning Bolt'', ''UnknownCard123''] [1, 0]
      (init 100)))) = Some (card_not_found ''UnknownCard123'') \<and>
   fst (batch_fetch_card_data demo [''Lightning Bolt'', ''UnknownCard123''] False [1, 0]
      (init 100)) = Inl (card_not_found ''UnknownCard123'') \<and>
   sort [1, 0] = [0..<length [''Lightning Bolt'', ''Island'']] \<and>
   first_error (map snd (fst (run_tasks demo [''Lightning Bolt'', ''Island''] [1, 0]
      (init 100)))) = None \<and>
   (\<exists>rs. fst (batch_fetch_card_data demo [''Lightning Bolt'', ''Island''] True [1, 0]
      (init 100)) = Inr rs \<and> length rs = length [''Lightning Bolt'', ''Island''])"
proof -
  note a = batch_raises_first_failure [OF sched_unknown, of demo "init 100" False]
  note b = batch_raises_first_failure [OF sched_10, of demo "init 100" True]
  note a1 = conjunct1 [OF mp [OF spec [OF conjunct2 [OF conjunct2 [OF a]]] demo_batch_unknown]]
  note b1 = mp [OF conjunct1 [OF conjunct2 [OF b]] demo_batch_known]
  show ?thesis
    by (intro conjI) (rule sched_unknown demo_batch_unknown a1 sched_10 demo_batch_known b1)+
qed

end
